theory Spec2Isabelle
  imports Complex_Main "HOL-Library.Word"
begin

unbundle bit_operations_syntax

section \<open>Data model (swollencandle.hpp)\<close>

type_synonym u32 = "32 word"
type_synonym u64 = "64 word"

text \<open>
  \<^verbatim>\<open>struct candle\<close> and \<^verbatim>\<open>struct trade\<close>. The C++ \<^verbatim>\<open>double\<close> is the type
  parameter \<open>'d\<close>: its arithmetic and comparisons (\<open>'d fp\<close>) and its conversions from and
  to text (\<open>'d charconv\<close>, the \<^verbatim>\<open>std::from_chars\<close> and \<^verbatim>\<open>std::to_chars\<close> of
  \<^verbatim>\<open><charconv>\<close>) are not code of this library. They are parameters of every function that
  uses them, and every theorem holds for each interpretation of them (IEEE 754 included).
\<close>

record 'd candle =
  time :: u64
  period :: u32
  count :: u64
  volume :: 'd
  vwap_price :: 'd
  open_price :: 'd
  high_price :: 'd
  low_price :: 'd
  close_price :: 'd

record 'd trade =
  time :: u64
  amount :: 'd
  price :: 'd

record 'd fp =
  fzero :: 'd
  fadd :: "'d \<Rightarrow> 'd \<Rightarrow> 'd"
  fmul :: "'d \<Rightarrow> 'd \<Rightarrow> 'd"
  fdiv :: "'d \<Rightarrow> 'd \<Rightarrow> 'd"
  fgt :: "'d \<Rightarrow> 'd \<Rightarrow> bool"
  flt :: "'d \<Rightarrow> 'd \<Rightarrow> bool"
  feq :: "'d \<Rightarrow> 'd \<Rightarrow> bool"

record 'd charconv =
  to_chars_double :: "'d \<Rightarrow> string"
  from_chars_double :: "string \<Rightarrow> 'd option"

datatype upscale_period = minute | hour | day | month | year

datatype error =
  ok
  | non_constant_period
  | invalid_upscale_period
  | merging_periods_mismatch
  | duplicated_candle
  | mismatched_candles
  | invalid_candle_fields
  | invalid_trade_fields

text \<open>
  Undefined behaviour of the C++ that the model keeps visible: an integer division or
  remainder by zero, and an index outside a vector.
\<close>

datatype fault = division_by_zero | out_of_bounds

text \<open>
  The operators \<^verbatim>\<open>/\<close> and \<^verbatim>\<open>%\<close> of the C++ on unsigned integers: a fault when the divisor
  is zero.
\<close>

definition checked_div :: "'a::{zero, divide} \<Rightarrow> 'a \<Rightarrow> fault + 'a" where
  "checked_div a b = (if b = 0 then Inl division_by_zero else Inr (a div b))"

definition checked_mod :: "'a::{zero, modulo} \<Rightarrow> 'a \<Rightarrow> fault + 'a" where
  "checked_mod a b = (if b = 0 then Inl division_by_zero else Inr (a mod b))"

text \<open>
  \<^verbatim>\<open>seconds_in\<close>: the \<^verbatim>\<open>default\<close> branch (0) is for values outside the enumeration,
  which the datatype does not have.
\<close>

fun seconds_in :: "upscale_period \<Rightarrow> u32" where
  "seconds_in minute = 60"
| "seconds_in hour = 3600"
| "seconds_in day = 86400"
| "seconds_in month = 2592000"
| "seconds_in year = 31104000"

text \<open>
  \<^verbatim>\<open>detail::failed(ec, errc)\<close> assigns the error code and returns false. A function
  with the out-parameters \<^verbatim>\<open>result\<close> and \<^verbatim>\<open>ec\<close> takes their values at the call and
  returns the boolean with their values at the return.
\<close>

definition failed :: "error \<Rightarrow> error \<Rightarrow> bool \<times> error" where
  "failed ec errc = (False, errc)"

section \<open>Upscaling candles\<close>

text \<open>
  \<^verbatim>\<open>detail::check_integrity\<close>: the loop runs over \<^verbatim>\<open>candles[1..size)\<close>, here the tail of
  the list; \<^verbatim>\<open>last_time\<close> is assigned and never read.
\<close>

fun check_integrity_loop :: "u32 \<Rightarrow> 'd candle list \<Rightarrow> error \<Rightarrow> bool \<times> error" where
  "check_integrity_loop p [] ec = (True, ec)"
| "check_integrity_loop p (each # rest) ec =
     (if candle.period each \<noteq> p then failed ec non_constant_period
      else check_integrity_loop p rest ec)"

definition check_integrity :: "'d candle list \<Rightarrow> error \<Rightarrow> bool \<times> error" where
  "check_integrity candles ec =
     (case candles of
        [] \<Rightarrow> (True, ec)
      | front # rest \<Rightarrow> check_integrity_loop (candle.period front) rest ec)"

text \<open>\<^verbatim>\<open>std::vector::resize\<close>: new elements are value-initialised (all fields zero).\<close>

definition zero_candle :: "'d fp \<Rightarrow> 'd candle" where
  "zero_candle F =
     \<lparr>candle.time = 0, period = 0, count = 0, volume = fzero F, vwap_price = fzero F,
      open_price = fzero F, high_price = fzero F, low_price = fzero F,
      close_price = fzero F\<rparr>"

definition resize :: "nat \<Rightarrow> 'a \<Rightarrow> 'a list \<Rightarrow> 'a list" where
  "resize n fill xs = take n xs @ replicate (n - length xs) fill"

text \<open>\<^verbatim>\<open>std::copy(begin(source), end(source), begin(result))\<close>.\<close>

definition copy_into :: "'a list \<Rightarrow> 'a list \<Rightarrow> 'a list" where
  "copy_into src dst = src @ drop (length src) dst"

text \<open>
  The accumulators of one run: \<^verbatim>\<open>count\<close>, \<^verbatim>\<open>volume\<close>, \<^verbatim>\<open>turnover\<close>, \<^verbatim>\<open>high_price\<close>,
  \<^verbatim>\<open>low_price\<close>.
\<close>

type_synonym 'd run_acc = "u64 \<times> 'd \<times> 'd \<times> 'd \<times> 'd"

definition run_init :: "'d fp \<Rightarrow> 'd candle \<Rightarrow> 'd run_acc" where
  "run_init F c =
     (count c, volume c, fmul F (vwap_price c) (volume c), high_price c, low_price c)"

definition run_step :: "'d fp \<Rightarrow> 'd candle \<Rightarrow> 'd run_acc \<Rightarrow> 'd run_acc" where
  "run_step F c acc =
     (case acc of (cnt, vol, turnover, high, low) \<Rightarrow>
        (cnt + count c,
         fadd F vol (volume c),
         fadd F turnover (fmul F (volume c) (vwap_price c)),
         (if fgt F (high_price c) high then high_price c else high),
         (if flt F (low_price c) low then low_price c else low)))"

text \<open>
  The inner loop \<^verbatim>\<open>for(auto k = j + 1; k != j + candles_to_fit; ++k)\<close>; reading
  \<^verbatim>\<open>source[k]\<close> outside the vector is a fault.
\<close>

function upscale_run ::
  "'d fp \<Rightarrow> 'd candle list \<Rightarrow> nat \<Rightarrow> nat \<Rightarrow> 'd run_acc \<Rightarrow> fault + 'd run_acc" where
  "upscale_run F source k stop acc =
     (if k = stop then Inr acc
      else if length source \<le> k then Inl out_of_bounds
      else upscale_run F source (k + 1) stop (run_step F (source ! k) acc))"
  by pat_completeness auto
termination
  by (relation "measure (\<lambda>(F, source, k, stop, acc). length source - k)") auto

declare upscale_run.simps [simp del]

text \<open>
  The outer loop \<^verbatim>\<open>for(i = 0, j = 0; i != result.size(); ++i, j += candles_to_fit)\<close>.
  \<^verbatim>\<open>j + candles_to_fit - 1\<close> is computed in \<^verbatim>\<open>size_t\<close>; it is read only after the inner
  loop has run up to \<^verbatim>\<open>j + candles_to_fit\<close>, so it does not wrap below zero there.
\<close>

function upscale_loop ::
  "'d fp \<Rightarrow> 'd candle list \<Rightarrow> u32 \<Rightarrow> nat \<Rightarrow> nat \<Rightarrow> nat \<Rightarrow> 'd candle list
     \<Rightarrow> fault + 'd candle list" where
  "upscale_loop F source period_in_seconds candles_to_fit i j result =
     (if i = length result then Inr result
      else if length source \<le> j then Inl out_of_bounds
      else
        (case upscale_run F source (j + 1) (j + candles_to_fit) (run_init F (source ! j)) of
           Inl f \<Rightarrow> Inl f
         | Inr (cnt, vol, turnover, high, low) \<Rightarrow>
             (case checked_div (candle.time (source ! j)) (ucast period_in_seconds) of
                Inl f \<Rightarrow> Inl f
              | Inr periods \<Rightarrow>
                  if length source \<le> j + candles_to_fit - 1 then Inl out_of_bounds
                  else if length result \<le> i then Inl out_of_bounds
                  else
                    upscale_loop F source period_in_seconds candles_to_fit (i + 1)
                      (j + candles_to_fit)
                      (result[i :=
                         \<lparr>candle.time = periods * ucast period_in_seconds,
                          period = period_in_seconds,
                          count = cnt,
                          volume = vol,
                          vwap_price = fdiv F turnover vol,
                          open_price = open_price (source ! j),
                          high_price = high,
                          low_price = low,
                          close_price =
                            close_price (source ! (j + candles_to_fit - 1))\<rparr>]))))"
  by pat_completeness auto
termination
  by (relation "measure (\<lambda>(F, source, s, c, i, j, result). length result - i)") auto

declare upscale_loop.simps [simp del]

text \<open>
  \<^verbatim>\<open>upscale(std::vector<candle> const& source, std::vector<candle>& result, up, ec)\<close>.
  \<^verbatim>\<open>period_in_seconds % period\<close> and \<^verbatim>\<open>period_in_seconds / period\<close> are 32-bit unsigned
  operations, \<^verbatim>\<open>source.size() / candles_to_fit\<close> is one in \<^verbatim>\<open>size_t\<close>, and the division
  \<^verbatim>\<open>source[j].time / period_in_seconds\<close> of the loop one in 64 bits; each is a fault when
  its divisor is zero.
\<close>

definition upscale_candles ::
  "'d fp \<Rightarrow> 'd candle list \<Rightarrow> 'd candle list \<Rightarrow> upscale_period \<Rightarrow> error
     \<Rightarrow> fault + (bool \<times> 'd candle list \<times> error)" where
  "upscale_candles F source result up ec =
     (if source = [] then Inr (True, result, ec)
      else
        (case check_integrity source ec of
           (False, ec') \<Rightarrow> Inr (False, result, ec')
         | (True, ec') \<Rightarrow>
             (let p = candle.period (hd source);
                  period_in_seconds = seconds_in up
              in case checked_mod period_in_seconds p of
                   Inl f \<Rightarrow> Inl f
                 | Inr remainder \<Rightarrow>
                     if remainder \<noteq> 0
                     then (case failed ec' invalid_upscale_period of
                             (b, ec'') \<Rightarrow> Inr (b, result, ec''))
                     else if period_in_seconds = p
                     then Inr (True,
                            copy_into source (resize (length source) (zero_candle F) result),
                            ec')
                     else
                       (case checked_div period_in_seconds p of
                          Inl f \<Rightarrow> Inl f
                        | Inr candles_to_fit \<Rightarrow>
                            (case checked_div (length source) (unat candles_to_fit) of
                               Inl f \<Rightarrow> Inl f
                             | Inr n \<Rightarrow>
                                 (case upscale_loop F source period_in_seconds
                                         (unat candles_to_fit) 0 0
                                         (resize n (zero_candle F) result) of
                                    Inl f \<Rightarrow> Inl f
                                  | Inr r \<Rightarrow> Inr (True, r, ec')))))))"

text \<open>
  Two notions for the statements about \<^verbatim>\<open>upscale\<close>: a series has a constant period when
  every candle has the period of the first one; \<open>aggregate_run\<close> is the candle that one run
  of consecutive source candles aggregates to (counts and volumes summed, turnover summed and divided by the volume,
  highest high, lowest low, first open, last close, time of the first candle floored to
  the target period).
\<close>

definition constant_period :: "'d candle list \<Rightarrow> bool" where
  "constant_period cs = (\<forall>c \<in> set cs. candle.period c = candle.period (hd cs))"

definition aggregate_run :: "'d fp \<Rightarrow> u32 \<Rightarrow> 'd candle list \<Rightarrow> 'd candle" where
  "aggregate_run F period_in_seconds run =
     (case fold (run_step F) (tl run) (run_init F (hd run)) of
        (cnt, vol, turnover, high, low) \<Rightarrow>
          \<lparr>candle.time =
             candle.time (hd run) div ucast period_in_seconds * ucast period_in_seconds,
           period = period_in_seconds,
           count = cnt,
           volume = vol,
           vwap_price = fdiv F turnover vol,
           open_price = open_price (hd run),
           high_price = high,
           low_price = low,
           close_price = close_price (last run)\<rparr>)"

subsection \<open>The loops as list functions\<close>

lemma check_integrity_loop_eq:
  "check_integrity_loop p cs ec =
     (if \<forall>c \<in> set cs. candle.period c = p then (True, ec) else (False, non_constant_period))"
  by (induction cs) (auto simp: failed_def)

lemma check_integrity_eq:
  "check_integrity cs ec =
     (if constant_period cs then (True, ec) else (False, non_constant_period))"
  by (cases cs) (auto simp: check_integrity_def check_integrity_loop_eq constant_period_def)

lemma upscale_run_eq:
  "k \<le> stop \<Longrightarrow> stop \<le> length source \<Longrightarrow>
   upscale_run F source k stop acc = Inr (fold (run_step F) (take (stop - k) (drop k source)) acc)"
proof (induction F source k stop acc rule: upscale_run.induct)
  case (1 F source k stop acc)
  show ?case
  proof (cases "k = stop")
    case True
    then show ?thesis by (subst upscale_run.simps) simp
  next
    case False
    with "1.prems" have lt: "k < stop" "k < length source" by auto
    then have "take (stop - k) (drop k source) =
        source ! k # take (stop - (k + 1)) (drop (k + 1) source)"
      by (metis Cons_nth_drop_Suc Suc_diff_Suc Suc_eq_plus1 take_Suc_Cons)
    moreover have "upscale_run F source (k + 1) stop (run_step F (source ! k) acc) =
        Inr (fold (run_step F) (take (stop - (k + 1)) (drop (k + 1) source))
               (run_step F (source ! k) acc))"
      using "1.IH" False lt "1.prems" by simp
    ultimately show ?thesis using False lt
      by (subst upscale_run.simps) simp
  qed
qed

lemma run_parts:
  assumes "0 < c" "j + c \<le> length source"
  shows "hd (take c (drop j source)) = source ! j"
    and "tl (take c (drop j source)) = take (j + c - (j + 1)) (drop (j + 1) source)"
    and "last (take c (drop j source)) = source ! (j + c - 1)"
proof -
  from assms have j: "j < length source" by simp
  from assms obtain c' where c: "c = Suc c'" by (cases c) auto
  have "take c (drop j source) = source ! j # take c' (drop (Suc j) source)"
    using j c by (simp add: Cons_nth_drop_Suc [symmetric])
  then show "hd (take c (drop j source)) = source ! j"
    and "tl (take c (drop j source)) = take (j + c - (j + 1)) (drop (j + 1) source)"
    using c by simp_all
  have ne: "take c (drop j source) \<noteq> []" using assms by simp
  have len: "length (take c (drop j source)) = c" using assms by simp
  show "last (take c (drop j source)) = source ! (j + c - 1)"
    using assms ne len by (simp add: last_conv_nth)
qed

lemma ucast_seconds_nonzero:
  fixes s :: u32
  assumes "s \<noteq> 0"
  shows "(ucast s :: u64) \<noteq> 0"
proof
  assume z: "(ucast s :: u64) = 0"
  have "unat s < 2 ^ 32" using unsigned_less [of s, where 'a = nat] by simp
  then have "unat s < 2 ^ 64" by simp
  then have "unat (ucast s :: u64) = unat s"
    by (simp add: unsigned_ucast_eq take_bit_nat_eq_self)
  with z have "unat s = 0" by simp
  with assms show False by (simp add: unat_eq_0)
qed

lemma upscale_loop_eq:
  assumes "0 < c" "j = i * c" "length result * c \<le> length source" "i \<le> length result"
    and "s \<noteq> 0"
  shows "\<exists>r. upscale_loop F source s c i j result = Inr r \<and> length r = length result \<and>
           (\<forall>m < length result. r ! m =
              (if m < i then result ! m else aggregate_run F s (take c (drop (m * c) source))))"
  using assms
proof (induction F source s c i j result rule: upscale_loop.induct)
  case (1 F source s c i j result)
  show ?case
  proof (cases "i = length result")
    case True
    then show ?thesis by (subst upscale_loop.simps) simp
  next
    case False
    with "1.prems" have i: "i < length result" by simp
    then have "Suc i * c \<le> length result * c" by (simp only: Suc_leI mult_le_mono1)
    with "1.prems" have fit: "j + c \<le> length source" by simp
    with "1.prems" have j: "j < length source" by simp
    from fit "1.prems"(1) have last_in: "\<not> length source \<le> j + c - 1" by arith
    let ?run = "take c (drop j source)"
    have run: "upscale_run F source (j + 1) (j + c) (run_init F (source ! j)) =
        Inr (fold (run_step F) (tl ?run) (run_init F (hd ?run)))"
      using upscale_run_eq [of "j + 1" "j + c" source F] fit "1.prems"(1)
      by (simp add: run_parts [OF "1.prems"(1) fit])
    obtain cnt vol turnover high low where
      acc: "fold (run_step F) (tl ?run) (run_init F (hd ?run)) = (cnt, vol, turnover, high, low)"
      by (metis prod_cases5)
    let ?cd = "\<lparr>candle.time = candle.time (source ! j) div ucast s * ucast s,
                 period = s, count = cnt, volume = vol, vwap_price = fdiv F turnover vol,
                 open_price = open_price (source ! j), high_price = high, low_price = low,
                 close_price = close_price (source ! (j + c - 1))\<rparr>"
    have cd: "?cd = aggregate_run F s ?run"
      unfolding aggregate_run_def acc
      by (simp add: run_parts(1,3) [OF "1.prems"(1) fit])
    have dv: "checked_div (candle.time (source ! j)) (ucast s :: u64) =
        Inr (candle.time (source ! j) div ucast s)"
      using ucast_seconds_nonzero [OF "1.prems"(5)] by (simp add: checked_div_def)
    have step: "upscale_loop F source s c i j result =
        upscale_loop F source s c (i + 1) (j + c) (result[i := ?cd])"
      using False i j fit "1.prems"(1) last_in dv
      apply (subst upscale_loop.simps)
      apply (simp only: run acc sum.case prod.case)
      apply simp
      done
    have "\<exists>r. upscale_loop F source s c (i + 1) (j + c) (result[i := ?cd]) = Inr r \<and>
            length r = length (result[i := ?cd]) \<and>
            (\<forall>m < length (result[i := ?cd]). r ! m =
               (if m < i + 1 then (result[i := ?cd]) ! m
                else aggregate_run F s (take c (drop (m * c) source))))"
      using "1.IH" [OF False _ run [unfolded acc] refl refl refl refl dv] i j fit "1.prems"
      by simp
    then obtain r where
      r: "upscale_loop F source s c (i + 1) (j + c) (result[i := ?cd]) = Inr r"
        "length r = length result"
        "\<forall>m < length result. r ! m =
               (if m < i + 1 then (result[i := ?cd]) ! m
                else aggregate_run F s (take c (drop (m * c) source)))"
      by auto
    have "\<forall>m < length result. r ! m =
              (if m < i then result ! m else aggregate_run F s (take c (drop (m * c) source)))"
    proof (intro allI impI)
      fix m assume m: "m < length result"
      show "r ! m =
          (if m < i then result ! m else aggregate_run F s (take c (drop (m * c) source)))"
      proof (cases "m = i")
        case True
        then show ?thesis using r(3) m i cd "1.prems"(2) by simp
      next
        case False
        then show ?thesis using r(3) m by auto
      qed
    qed
    with r step show ?thesis by simp
  qed
qed

subsection \<open>The branches of \<^verbatim>\<open>upscale\<close>\<close>

lemma seconds_in_nonzero: "seconds_in up \<noteq> 0"
  by (cases up) simp_all

lemma resize_length: "length (resize n fill xs) = n"
  by (simp add: resize_def)

lemma copy_into_resize: "copy_into src (resize (length src) fill dst) = src"
  by (simp add: copy_into_def resize_def)

lemma candles_to_fit_positive:
  fixes s p :: u32
  assumes "p \<noteq> 0" "s mod p = 0" "s \<noteq> 0"
  shows "0 < unat (s div p)"
proof -
  have "unat s mod unat p = 0" using assms(2) by (metis unat_mod unat_0)
  moreover have "0 < unat s" "0 < unat p" using assms by (simp_all add: unat_gt_0)
  ultimately have "0 < unat s div unat p"
    by (metis div_greater_zero_iff mod_less neq0_conv not_less)
  then show ?thesis by (simp add: unat_div)
qed

lemma upscale_candles_cases:
  "upscale_candles F source result up ec =
     (if source = [] then Inr (True, result, ec)
      else if \<not> constant_period source then Inr (False, result, non_constant_period)
      else if candle.period (hd source) = 0 then Inl division_by_zero
      else if seconds_in up mod candle.period (hd source) \<noteq> 0
        then Inr (False, result, invalid_upscale_period)
      else if seconds_in up = candle.period (hd source) then Inr (True, source, ec)
      else
        (case upscale_loop F source (seconds_in up)
                (unat (seconds_in up div candle.period (hd source))) 0 0
                (resize (length source div unat (seconds_in up div candle.period (hd source)))
                   (zero_candle F) result) of
           Inl f \<Rightarrow> Inl f
         | Inr r \<Rightarrow> Inr (True, r, ec)))"
proof (cases "candle.period (hd source) \<noteq> 0 \<and> seconds_in up mod candle.period (hd source) = 0")
  case True
  then have "unat (seconds_in up div candle.period (hd source)) \<noteq> 0"
    using candles_to_fit_positive [OF _ _ seconds_in_nonzero, of "candle.period (hd source)" up]
    by simp
  with True show ?thesis
    by (simp add: upscale_candles_def check_integrity_eq failed_def copy_into_resize Let_def
        checked_div_def checked_mod_def)
next
  case False
  then consider "candle.period (hd source) = 0"
    | "candle.period (hd source) \<noteq> 0" "seconds_in up mod candle.period (hd source) \<noteq> 0"
    by argo
  then show ?thesis
  proof cases
    case 1
    then show ?thesis
      by (simp add: upscale_candles_def check_integrity_eq Let_def checked_mod_def)
  next
    case 2
    then show ?thesis
      by (simp add: upscale_candles_def check_integrity_eq failed_def Let_def checked_mod_def)
  qed
qed

lemma upscale_candles_loop_result:
  assumes "candle.period (hd source) \<noteq> 0" "seconds_in up mod candle.period (hd source) = 0"
  shows "\<exists>r. upscale_loop F source (seconds_in up)
                (unat (seconds_in up div candle.period (hd source))) 0 0
                (resize (length source div unat (seconds_in up div candle.period (hd source)))
                   (zero_candle F) result) = Inr r \<and>
             length r = length source div unat (seconds_in up div candle.period (hd source)) \<and>
             (\<forall>m < length r. r ! m =
                aggregate_run F (seconds_in up)
                  (take (unat (seconds_in up div candle.period (hd source)))
                     (drop (m * unat (seconds_in up div candle.period (hd source))) source)))"
proof -
  let ?c = "unat (seconds_in up div candle.period (hd source))"
  let ?res = "resize (length source div ?c) (zero_candle F) result"
  have c: "0 < ?c" using candles_to_fit_positive [OF assms seconds_in_nonzero] .
  have "length ?res * ?c \<le> length source" by (simp add: resize_length)
  from upscale_loop_eq [OF c _ this _ seconds_in_nonzero, of 0 0 F up]
  show ?thesis by (auto simp: resize_length)
qed

lemma upscale_candles_returns:
  assumes "source = [] \<or> candle.period (hd source) \<noteq> 0"
  shows "\<exists>b r e. upscale_candles F source result up ec = Inr (b, r, e)"
proof (cases "source \<noteq> [] \<and> constant_period source \<and>
                seconds_in up mod candle.period (hd source) = 0 \<and>
                seconds_in up \<noteq> candle.period (hd source)")
  case True
  with assms have p: "candle.period (hd source) \<noteq> 0" by simp
  from upscale_candles_loop_result [OF p, of up F result] True
  show ?thesis using True p by (auto simp: upscale_candles_cases)
next
  case False
  then show ?thesis using assms by (auto simp: upscale_candles_cases)
qed


section \<open>Merging two candle series\<close>

text \<open>
  The defaulted \<^verbatim>\<open>operator ==\<close> of \<^verbatim>\<open>candle\<close> compares the nine members in order, the
  doubles with the floating-point \<^verbatim>\<open>==\<close>; \<^verbatim>\<open>operator !=\<close> is its negation.
\<close>

definition candle_eq :: "'d fp \<Rightarrow> 'd candle \<Rightarrow> 'd candle \<Rightarrow> bool" where
  "candle_eq F a b \<longleftrightarrow>
     candle.time a = candle.time b \<and> period a = period b \<and> count a = count b \<and>
     feq F (volume a) (volume b) \<and> feq F (vwap_price a) (vwap_price b) \<and>
     feq F (open_price a) (open_price b) \<and> feq F (high_price a) (high_price b) \<and>
     feq F (low_price a) (low_price b) \<and> feq F (close_price a) (close_price b)"

text \<open>
  \<^verbatim>\<open>std::unordered_map<std::uint64_t, candle const*> indexed\<close> is an association list
  with one entry per key; the inputs are not modified, so a pointer to a candle is the
  candle. \<^verbatim>\<open>try_emplace\<close> returns the map, the value stored under the key afterwards
  (\<^verbatim>\<open>placed.first->second\<close>) and whether the entry was inserted (\<^verbatim>\<open>placed.second\<close>). The
  order of the entries stands for the unspecified iteration order of the map; the result
  is sorted by key afterwards.
\<close>

type_synonym 'd index = "(u64 \<times> 'd candle) list"

definition try_emplace :: "u64 \<Rightarrow> 'd candle \<Rightarrow> 'd index \<Rightarrow> 'd index \<times> 'd candle \<times> bool" where
  "try_emplace k v indexed =
     (case map_of indexed k of
        Some v' \<Rightarrow> (indexed, v', False)
      | None \<Rightarrow> ((k, v) # indexed, v, True))"

text \<open>The loop over \<^verbatim>\<open>x\<close>: a key that is already present is a duplicated candle.\<close>

fun merge_x :: "'d candle list \<Rightarrow> 'd index \<Rightarrow> error \<Rightarrow> bool \<times> 'd index \<times> error" where
  "merge_x [] indexed ec = (True, indexed, ec)"
| "merge_x (each # rest) indexed ec =
     (case try_emplace (candle.time each) each indexed of
        (indexed', existing, placed) \<Rightarrow>
          if \<not> placed then (case failed ec duplicated_candle of (b, ec') \<Rightarrow> (b, indexed', ec'))
          else merge_x rest indexed' ec)"

text \<open>
  The loop over \<^verbatim>\<open>y\<close>: a key that is already present is an error only when the candle
  stored under it differs from the incoming one.
\<close>

fun merge_y :: "'d fp \<Rightarrow> 'd candle list \<Rightarrow> 'd index \<Rightarrow> error \<Rightarrow> bool \<times> 'd index \<times> error" where
  "merge_y F [] indexed ec = (True, indexed, ec)"
| "merge_y F (each # rest) indexed ec =
     (case try_emplace (candle.time each) each indexed of
        (indexed', existing, placed) \<Rightarrow>
          if \<not> placed \<and> \<not> candle_eq F existing each
          then (case failed ec mismatched_candles of (b, ec') \<Rightarrow> (b, indexed', ec'))
          else merge_y F rest indexed' ec)"

text \<open>
  \<^verbatim>\<open>merge(x, y, z, ec)\<close>. The entries are copied to \<^verbatim>\<open>sorted\<close>, sorted by time with
  \<^verbatim>\<open>std::sort\<close> (the keys are distinct, so the order is determined), and written to the
  resized \<^verbatim>\<open>z\<close>.
\<close>

definition merge ::
  "'d fp \<Rightarrow> 'd candle list \<Rightarrow> 'd candle list \<Rightarrow> 'd candle list \<Rightarrow> error
     \<Rightarrow> bool \<times> 'd candle list \<times> error" where
  "merge F x y z ec =
     (if x \<noteq> [] \<and> y \<noteq> [] \<and> candle.period (hd x) \<noteq> candle.period (hd y)
      then (case failed ec merging_periods_mismatch of (b, ec') \<Rightarrow> (b, z, ec'))
      else
        (case merge_x x [] ec of
           (False, indexed, ec') \<Rightarrow> (False, z, ec')
         | (True, indexed, ec') \<Rightarrow>
             (case merge_y F y indexed ec' of
                (False, indexed', ec'') \<Rightarrow> (False, z, ec'')
              | (True, indexed', ec'') \<Rightarrow>
                  (let sorted = sort_key fst indexed'
                   in (True,
                       copy_into (map snd sorted) (resize (length sorted) (zero_candle F) z),
                       ec'')))))"

subsection \<open>Duplicates within the first input\<close>

lemma map_of_try_emplace:
  "try_emplace k v indexed = (indexed', existing, placed) \<Longrightarrow>
   dom (map_of indexed') = insert k (dom (map_of indexed)) \<and>
   (placed \<longleftrightarrow> k \<notin> dom (map_of indexed))"
  by (auto simp: try_emplace_def split: option.splits)

lemma merge_x_duplicate:
  "\<not> distinct (map candle.time xs) \<or> (\<exists>c \<in> set xs. candle.time c \<in> dom (map_of indexed)) \<Longrightarrow>
   \<exists>indexed'. merge_x xs indexed ec = (False, indexed', duplicated_candle)"
proof (induction xs arbitrary: indexed)
  case Nil
  then show ?case by simp
next
  case (Cons each rest)
  obtain indexed' existing placed where
    te: "try_emplace (candle.time each) each indexed = (indexed', existing, placed)"
    by (metis prod_cases3)
  note dom = map_of_try_emplace [OF te]
  show ?case
  proof (cases placed)
    case False
    then show ?thesis using te by (simp add: failed_def)
  next
    case True
    with dom have fresh: "candle.time each \<notin> dom (map_of indexed)" by simp
    from Cons.prems fresh
    have "\<not> distinct (map candle.time rest) \<or>
        (\<exists>c \<in> set rest. candle.time c \<in> dom (map_of indexed'))"
      using dom by auto
    from Cons.IH [OF this] show ?thesis using te True by simp
  qed
qed

section \<open>Aggregating trades\<close>

text \<open>
  The local \<^verbatim>\<open>candle\<close> of \<^verbatim>\<open>upscale\<close> (trades) is not initialised; its \<^verbatim>\<open>vwap_price\<close> is
  assigned before each \<^verbatim>\<open>push_back\<close> and read nowhere else, so the accumulator is kept
  without it, together with the local \<^verbatim>\<open>turnover\<close>.
\<close>

record 'd bucket =
  b_time :: u64
  b_period :: u32
  b_count :: u64
  b_volume :: 'd
  b_turnover :: 'd
  b_open_price :: 'd
  b_high_price :: 'd
  b_low_price :: 'd
  b_close_price :: 'd

text \<open>The assignments that open a candle from one trade.\<close>

definition open_bucket :: "'d fp \<Rightarrow> u32 \<Rightarrow> 'd trade \<Rightarrow> 'd bucket" where
  "open_bucket F period_in_seconds t =
     \<lparr>b_time = trade.time t div ucast period_in_seconds * ucast period_in_seconds,
      b_period = period_in_seconds,
      b_count = 1,
      b_volume = amount t,
      b_turnover = fmul F (amount t) (price t),
      b_open_price = price t,
      b_high_price = price t,
      b_low_price = price t,
      b_close_price = price t\<rparr>"

text \<open>\<^verbatim>\<open>candle.vwap_price = turnover / candle.volume; result.push_back(candle)\<close>.\<close>

definition flush :: "'d fp \<Rightarrow> 'd bucket \<Rightarrow> 'd candle" where
  "flush F b =
     \<lparr>candle.time = b_time b, period = b_period b, count = b_count b, volume = b_volume b,
      vwap_price = fdiv F (b_turnover b) (b_volume b), open_price = b_open_price b,
      high_price = b_high_price b, low_price = b_low_price b,
      close_price = b_close_price b\<rparr>"

text \<open>The \<^verbatim>\<open>else\<close> branch of the loop: the trade extends the current candle.\<close>

definition extend_bucket :: "'d fp \<Rightarrow> 'd trade \<Rightarrow> 'd bucket \<Rightarrow> 'd bucket" where
  "extend_bucket F t b =
     b\<lparr>b_count := b_count b + 1,
       b_volume := fadd F (b_volume b) (amount t),
       b_turnover := fadd F (b_turnover b) (fmul F (price t) (amount t)),
       b_high_price := (if fgt F (price t) (b_high_price b) then price t else b_high_price b),
       b_low_price :=
         (if fgt F (price t) (b_high_price b) then b_low_price b
          else if flt F (price t) (b_low_price b) then price t else b_low_price b),
       b_close_price := price t\<rparr>"

text \<open>The loop over \<^verbatim>\<open>trades[1..size)\<close>, with the final flush after it.\<close>

fun upscale_trades_loop ::
  "'d fp \<Rightarrow> u32 \<Rightarrow> 'd trade list \<Rightarrow> 'd bucket \<Rightarrow> 'd candle list \<Rightarrow> 'd candle list" where
  "upscale_trades_loop F period_in_seconds [] b result = result @ [flush F b]"
| "upscale_trades_loop F period_in_seconds (each_trade # rest) b result =
     (if b_time b + ucast period_in_seconds \<le> trade.time each_trade
      then upscale_trades_loop F period_in_seconds rest
             (open_bucket F period_in_seconds each_trade) (result @ [flush F b])
      else upscale_trades_loop F period_in_seconds rest (extend_bucket F each_trade b) result)"

text \<open>
  \<^verbatim>\<open>upscale(std::vector<trade> const& trades, std::vector<candle>& result, up, ec)\<close>.
  The divisor \<^verbatim>\<open>period_in_seconds\<close> is one of the five nonzero constants.
\<close>

definition upscale_trades ::
  "'d fp \<Rightarrow> 'd trade list \<Rightarrow> 'd candle list \<Rightarrow> upscale_period \<Rightarrow> error
     \<Rightarrow> bool \<times> 'd candle list \<times> error" where
  "upscale_trades F trades result up ec =
     (case trades of
        [] \<Rightarrow> (True, result, ec)
      | first_trade # rest \<Rightarrow>
          (let period_in_seconds = seconds_in up
           in (True,
               upscale_trades_loop F period_in_seconds rest
                 (open_bucket F period_in_seconds first_trade) result,
               ec)))"

lemma upscale_trades_loop_append:
  "upscale_trades_loop F s ts b result = result @ upscale_trades_loop F s ts b []"
proof (induction ts arbitrary: b result)
  case Nil
  show ?case by simp
next
  case (Cons t ts)
  show ?case
    using Cons.IH [of "open_bucket F s t" "result @ [flush F b]"]
      Cons.IH [of "open_bucket F s t" "[flush F b]"]
      Cons.IH [of "extend_bucket F t b" result]
    by simp
qed

lemma upscale_trades_append:
  "upscale_trades F trades result up ec =
     (True, result @ fst (snd (upscale_trades F trades [] up ec)), ec)"
  using upscale_trades_loop_append [of F _ _ _ result]
  by (cases trades) (simp_all add: upscale_trades_def Let_def)

section \<open>Reading rows (cosevalues.hpp, \<^verbatim>\<open>row\<close> and \<^verbatim>\<open>reader\<close>)\<close>

abbreviation NUL :: char where "NUL \<equiv> CHR 0x00"
abbreviation TAB :: char where "TAB \<equiv> CHR 0x09"
abbreviation LF :: char where "LF \<equiv> CHR 0x0A"
abbreviation CR :: char where "CR \<equiv> CHR 0x0D"
abbreviation SPACE :: char where "SPACE \<equiv> CHR 0x20"
abbreviation DQUOTE :: char where "DQUOTE \<equiv> CHR 0x22"
abbreviation COMMA :: char where "COMMA \<equiv> CHR 0x2C"
abbreviation MINUS :: char where "MINUS \<equiv> CHR 0x2D"

text \<open>
  A cursor \<^verbatim>\<open>char const* cursor_\<close> into the text of the reader is the text from the
  cursor to the end of the buffer. Two cursors into one buffer are equal as pointers
  exactly when these texts are equal, and the end of the buffer is the empty text.
  \<^verbatim>\<open>*cursor_\<close> at the end of the buffer reads the terminating NUL of the
  \<^verbatim>\<open>std::string\<close>; no scanner moves past a NUL, so nothing is read beyond it.
\<close>

type_synonym cursor = string

definition peek :: "cursor \<Rightarrow> char" where
  "peek cur = (case cur of [] \<Rightarrow> NUL | c # rest \<Rightarrow> c)"

text \<open>The text between \<^verbatim>\<open>mark\<close> and a later cursor.\<close>

definition span :: "cursor \<Rightarrow> cursor \<Rightarrow> string" where
  "span mark cur = take (length mark - length cur) mark"

fun skip_line :: "cursor \<Rightarrow> cursor" where
  "skip_line [] = []"
| "skip_line (c # rest) =
     (if c = LF then rest else if c = NUL then c # rest else skip_line rest)"

fun skip_whitespaces :: "cursor \<Rightarrow> cursor" where
  "skip_whitespaces [] = []"
| "skip_whitespaces (c # rest) =
     (if c = SPACE \<or> c = TAB \<or> c = CR then skip_whitespaces rest else c # rest)"

text \<open>
  \<^verbatim>\<open>scan_quoted\<close> steps over the opening quote and runs to the closing one; the result is
  the return value, the cursor and \<^verbatim>\<open>has_inner_quotes\<close>.
\<close>

fun scan_quoted_loop :: "cursor \<Rightarrow> bool \<Rightarrow> bool \<times> cursor \<times> bool" where
  "scan_quoted_loop [] has_inner_quotes = (False, [], has_inner_quotes)"
| "scan_quoted_loop (c # rest) has_inner_quotes =
     (if c = LF \<or> c = NUL then (False, c # rest, has_inner_quotes)
      else if c = DQUOTE then
        (case rest of
           [] \<Rightarrow> (True, c # rest, has_inner_quotes)
         | d # rest' \<Rightarrow>
             if d = DQUOTE then scan_quoted_loop rest' True
             else (True, c # rest, has_inner_quotes))
      else scan_quoted_loop rest has_inner_quotes)"

definition scan_quoted :: "cursor \<Rightarrow> bool \<Rightarrow> bool \<times> cursor \<times> bool" where
  "scan_quoted cur has_inner_quotes = scan_quoted_loop (tl cur) has_inner_quotes"

fun scan_token :: "cursor \<Rightarrow> cursor" where
  "scan_token [] = []"
| "scan_token (c # rest) =
     (if c = TAB \<or> c = CR \<or> c = LF \<or> c = NUL \<or> c = COMMA then c # rest
      else scan_token rest)"

subsection \<open>\<^verbatim>\<open>std::from_chars\<close> for integers\<close>

text \<open>
  The C++ standard's \<^verbatim>\<open>std::from_chars(first, last, value)\<close> in base 10: the longest
  prefix of the range that is a run of decimal digits, after a minus sign for a signed
  type only (no plus sign, no white space), is converted. With no such prefix the error
  is \<^verbatim>\<open>invalid_argument\<close>, with a value outside the type \<^verbatim>\<open>result_out_of_range\<close>;
  otherwise there is no error, whatever follows the prefix. \<^verbatim>\<open>try_parse\<close> reads only the
  error code of the result, not its \<^verbatim>\<open>ptr\<close>.
\<close>

datatype errc = invalid_argument | result_out_of_range | value_too_large

definition is_digit :: "char \<Rightarrow> bool" where
  "is_digit c \<longleftrightarrow> (48 :: nat) \<le> of_char c \<and> of_char c \<le> (57 :: nat)"

definition digit_value :: "char \<Rightarrow> nat" where
  "digit_value c = of_char c - 48"

definition digits_value :: "string \<Rightarrow> nat" where
  "digits_value ds = foldl (\<lambda>n c. 10 * n + digit_value c) 0 ds"

definition from_chars_unsigned :: "nat \<Rightarrow> string \<Rightarrow> errc + nat" where
  "from_chars_unsigned bits s =
     (let ds = takeWhile is_digit s
      in if ds = [] then Inl invalid_argument
         else if 2 ^ bits \<le> digits_value ds then Inl result_out_of_range
         else Inr (digits_value ds))"

definition from_chars_signed :: "nat \<Rightarrow> string \<Rightarrow> errc + int" where
  "from_chars_signed bits s =
     (if peek s = MINUS then
        (let ds = takeWhile is_digit (tl s)
         in if ds = [] then Inl invalid_argument
            else if 2 ^ (bits - 1) < digits_value ds then Inl result_out_of_range
            else Inr (- int (digits_value ds)))
      else
        (let ds = takeWhile is_digit s
         in if ds = [] then Inl invalid_argument
            else if 2 ^ (bits - 1) \<le> digits_value ds then Inl result_out_of_range
            else Inr (int (digits_value ds))))"

text \<open>
  The overloads of \<^verbatim>\<open>row::try_parse\<close>: \<open>Some\<close> of the value assigned to \<^verbatim>\<open>arg\<close> when
  \<^verbatim>\<open>converted.ec == std::errc{}\<close>, \<open>None\<close> when it returns false.
\<close>

definition try_parse_int32 :: "string \<Rightarrow> 32 word option" where
  "try_parse_int32 s =
     (case from_chars_signed 32 s of Inl e \<Rightarrow> None | Inr v \<Rightarrow> Some (word_of_int v))"

definition try_parse_uint32 :: "string \<Rightarrow> u32 option" where
  "try_parse_uint32 s =
     (case from_chars_unsigned 32 s of Inl e \<Rightarrow> None | Inr v \<Rightarrow> Some (word_of_nat v))"

definition try_parse_int64 :: "string \<Rightarrow> 64 word option" where
  "try_parse_int64 s =
     (case from_chars_signed 64 s of Inl e \<Rightarrow> None | Inr v \<Rightarrow> Some (word_of_int v))"

definition try_parse_uint64 :: "string \<Rightarrow> u64 option" where
  "try_parse_uint64 s =
     (case from_chars_unsigned 64 s of Inl e \<Rightarrow> None | Inr v \<Rightarrow> Some (word_of_nat v))"

definition try_parse_double :: "'d charconv \<Rightarrow> string \<Rightarrow> 'd option" where
  "try_parse_double C s = from_chars_double C s"

text \<open>
  \<^verbatim>\<open>row::parse_arg\<close> for a numeric \<^verbatim>\<open>Arg\<close>, with the overload of \<^verbatim>\<open>try_parse\<close> that the
  type of \<^verbatim>\<open>arg\<close> selects as the argument \<open>try_parse\<close>. The result is the value and the
  cursor behind the field, or \<open>None\<close> when \<^verbatim>\<open>parse_arg\<close> returns false (the callers
  return at once then).
\<close>

definition parse_arg :: "(string \<Rightarrow> 'a option) \<Rightarrow> cursor \<Rightarrow> ('a \<times> cursor) option" where
  "parse_arg try_parse cur =
     (if peek cur = DQUOTE then
        (let mark = tl cur
         in case scan_quoted cur False of
              (False, cur', has_inner_quotes) \<Rightarrow> None
            | (True, cur', has_inner_quotes) \<Rightarrow>
                (case try_parse (span mark cur') of
                   None \<Rightarrow> None
                 | Some arg \<Rightarrow> Some (arg, tl cur')))
      else
        (let mark = cur; cur' = scan_token cur
         in if mark = cur' then None
            else (case try_parse (span mark cur') of
                    None \<Rightarrow> None
                  | Some arg \<Rightarrow> Some (arg, cur'))))"

text \<open>
  \<^verbatim>\<open>row::parse_args<I>\<close>: \<open>parse_args_last\<close> is the instance \<^verbatim>\<open>I == 1\<close>; \<open>parse_args_more\<close>
  is an instance with \<^verbatim>\<open>I > 1\<close>, where \<open>parse_rest\<close> is \<^verbatim>\<open>parse_args<I - 1>\<close> on the remaining
  arguments.
\<close>

definition parse_args_last ::
  "(cursor \<Rightarrow> ('a \<times> cursor) option) \<Rightarrow> cursor \<Rightarrow> ('a \<times> cursor) option" where
  "parse_args_last parse_one cur =
     (case parse_one cur of
        None \<Rightarrow> None
      | Some (arg, cur1) \<Rightarrow>
          (let cur2 = skip_whitespaces cur1
           in if peek cur2 = LF \<or> peek cur2 = NUL then Some (arg, cur2) else None))"

definition parse_args_more ::
  "(cursor \<Rightarrow> ('a \<times> cursor) option) \<Rightarrow> (cursor \<Rightarrow> ('b \<times> cursor) option) \<Rightarrow> cursor
     \<Rightarrow> (('a \<times> 'b) \<times> cursor) option" where
  "parse_args_more parse_one parse_rest cur =
     (case parse_one cur of
        None \<Rightarrow> None
      | Some (arg, cur1) \<Rightarrow>
          (let cur2 = skip_whitespaces cur1
           in if peek cur2 \<noteq> COMMA then None
              else
                (let cur3 = skip_whitespaces (tl cur2)
                 in case parse_rest cur3 of
                      None \<Rightarrow> None
                    | Some (args, cur4) \<Rightarrow> Some ((arg, args), cur4))))"

text \<open>
  \<^verbatim>\<open>row.parse(candle.time, candle.period, candle.count, candle.volume, ...)\<close> in
  \<^verbatim>\<open>read\<close> (candles) and \<^verbatim>\<open>row.parse(trade.time, trade.price, trade.amount)\<close> in
  \<^verbatim>\<open>read\<close> (trades): the instances \<^verbatim>\<open>parse_args<9>\<close> and \<^verbatim>\<open>parse_args<3>\<close> for these
  argument types, and the members of the local \<^verbatim>\<open>candle\<close> or \<^verbatim>\<open>trade\<close> they assign.
\<close>

definition candle_args ::
  "'d charconv \<Rightarrow> cursor
     \<Rightarrow> ((u64 \<times> u32 \<times> u64 \<times> 'd \<times> 'd \<times> 'd \<times> 'd \<times> 'd \<times> 'd) \<times> cursor) option" where
  "candle_args C =
     parse_args_more (parse_arg try_parse_uint64)
       (parse_args_more (parse_arg try_parse_uint32)
         (parse_args_more (parse_arg try_parse_uint64)
           (parse_args_more (parse_arg (try_parse_double C))
             (parse_args_more (parse_arg (try_parse_double C))
               (parse_args_more (parse_arg (try_parse_double C))
                 (parse_args_more (parse_arg (try_parse_double C))
                   (parse_args_more (parse_arg (try_parse_double C))
                     (parse_args_last (parse_arg (try_parse_double C))))))))))"

definition parse_candle :: "'d charconv \<Rightarrow> cursor \<Rightarrow> ('d candle \<times> cursor) option" where
  "parse_candle C cur =
     (case candle_args C cur of
        None \<Rightarrow> None
      | Some ((t, p, n, vol, vwap, op, hi, lo, cl), cur') \<Rightarrow>
          Some (\<lparr>candle.time = t, period = p, count = n, volume = vol, vwap_price = vwap,
                  open_price = op, high_price = hi, low_price = lo, close_price = cl\<rparr>,
                cur'))"

definition trade_args ::
  "'d charconv \<Rightarrow> cursor \<Rightarrow> ((u64 \<times> 'd \<times> 'd) \<times> cursor) option" where
  "trade_args C =
     parse_args_more (parse_arg try_parse_uint64)
       (parse_args_more (parse_arg (try_parse_double C))
         (parse_args_last (parse_arg (try_parse_double C))))"

definition parse_trade :: "'d charconv \<Rightarrow> cursor \<Rightarrow> ('d trade \<times> cursor) option" where
  "parse_trade C cur =
     (case trade_args C cur of
        None \<Rightarrow> None
      | Some ((t, pr, am), cur') \<Rightarrow>
          Some (\<lparr>trade.time = t, amount = am, price = pr\<rparr>, cur'))"

text \<open>
  \<^verbatim>\<open>const_iterator::operator++\<close>, applied to the cursor that \<^verbatim>\<open>row::parse\<close> has moved
  (the loop variable \<^verbatim>\<open>row\<close> is a reference to the row of the iterator).
\<close>

definition next_row :: "cursor \<Rightarrow> cursor" where
  "next_row cur = skip_whitespaces (skip_line cur)"

text \<open>
  The begin of \<^verbatim>\<open>reader::first_to_last_rows\<close> and of \<^verbatim>\<open>reader::second_to_last_rows\<close>; the
  end of both ranges is the end of the buffer.
\<close>

definition first_row :: "string \<Rightarrow> cursor" where
  "first_row source = skip_whitespaces source"

definition second_row :: "string \<Rightarrow> cursor" where
  "second_row source =
     (let second_line = skip_whitespaces source
      in if second_line = [] then [] else next_row second_line)"

subsection \<open>Every scanner moves forward\<close>

lemma length_skip_line: "length (skip_line cur) \<le> length cur"
  by (induction cur) auto

lemma length_skip_whitespaces: "length (skip_whitespaces cur) \<le> length cur"
  by (induction cur) auto

lemma length_next_row: "length (next_row cur) \<le> length cur"
  unfolding next_row_def
  by (rule order_trans [OF length_skip_whitespaces length_skip_line])

lemma length_scan_token: "length (scan_token cur) \<le> length cur"
  by (induction cur) auto

lemma length_scan_quoted_loop:
  "scan_quoted_loop cur inner = (b, cur', inner') \<Longrightarrow> length cur' \<le> length cur"
proof (induction cur inner rule: scan_quoted_loop.induct)
  case (1 inner)
  then show ?case by simp
next
  case (2 c rest inner)
  then show ?case
    by (cases rest) (auto split: if_splits)
qed

lemma scan_quoted_loop_True:
  "scan_quoted_loop cur inner = (True, cur', inner') \<Longrightarrow> cur' \<noteq> []"
proof (induction cur inner rule: scan_quoted_loop.induct)
  case (1 inner)
  then show ?case by simp
next
  case (2 c rest inner)
  then show ?case
    by (cases rest) (auto split: if_splits)
qed

definition advances :: "(cursor \<Rightarrow> ('a \<times> cursor) option) \<Rightarrow> bool" where
  "advances p \<longleftrightarrow> (\<forall>cur arg cur'. p cur = Some (arg, cur') \<longrightarrow> length cur' < length cur)"

lemma scan_token_fixed: "length (scan_token cur) = length cur \<Longrightarrow> scan_token cur = cur"
  using length_scan_token [of "tl cur"]
  by (cases cur) (auto split: if_splits)

lemma parse_arg_advances: "advances (parse_arg try_parse)"
  unfolding advances_def
proof (intro allI impI)
  fix cur arg cur'
  assume ok: "parse_arg try_parse cur = Some (arg, cur')"
  show "length cur' < length cur"
  proof (cases "peek cur = DQUOTE")
    case True
    then obtain rest where cur: "cur = DQUOTE # rest"
      by (cases cur) (auto simp: peek_def)
    from ok True obtain c inner where
      sq: "scan_quoted_loop rest False = (True, c, inner)" and c: "cur' = tl c"
      by (auto simp: parse_arg_def scan_quoted_def cur Let_def
          split: prod.splits bool.splits option.splits)
    from length_scan_quoted_loop [OF sq] scan_quoted_loop_True [OF sq] c cur
    show ?thesis by (cases c) auto
  next
    case False
    with ok have ne: "scan_token cur \<noteq> cur" and c: "cur' = scan_token cur"
      by (auto simp: parse_arg_def Let_def split: if_splits option.splits)
    from ne scan_token_fixed [of cur] have "length (scan_token cur) \<noteq> length cur" by blast
    with length_scan_token [of cur] c show ?thesis by simp
  qed
qed

lemma parse_args_last_advances: "advances parse_one \<Longrightarrow> advances (parse_args_last parse_one)"
  unfolding advances_def
proof (intro allI impI)
  fix cur arg cur'
  assume adv: "\<forall>cur arg cur'. parse_one cur = Some (arg, cur') \<longrightarrow> length cur' < length cur"
    and ok: "parse_args_last parse_one cur = Some (arg, cur')"
  from ok obtain cur1 where one: "parse_one cur = Some (arg, cur1)"
    and "cur' = skip_whitespaces cur1"
    by (auto simp: parse_args_last_def Let_def split: option.splits if_splits)
  with adv [rule_format, OF one] length_skip_whitespaces [of cur1]
  show "length cur' < length cur" by simp
qed

lemma parse_args_more_advances:
  "advances parse_one \<Longrightarrow> advances parse_rest \<Longrightarrow>
   advances (parse_args_more parse_one parse_rest)"
  unfolding advances_def
proof (intro allI impI)
  fix cur args cur'
  assume adv1: "\<forall>cur arg cur'. parse_one cur = Some (arg, cur') \<longrightarrow> length cur' < length cur"
    and adv2: "\<forall>cur arg cur'. parse_rest cur = Some (arg, cur') \<longrightarrow> length cur' < length cur"
    and ok: "parse_args_more parse_one parse_rest cur = Some (args, cur')"
  from ok obtain arg cur1 rest where one: "parse_one cur = Some (arg, cur1)"
    and rest: "parse_rest (skip_whitespaces (tl (skip_whitespaces cur1))) = Some (rest, cur')"
    by (auto simp: parse_args_more_def Let_def split: option.splits if_splits)
  have "length (skip_whitespaces (tl (skip_whitespaces cur1))) \<le> length cur1"
    using length_skip_whitespaces [of "tl (skip_whitespaces cur1)"]
      length_skip_whitespaces [of cur1]
    by simp
  with adv1 [rule_format, OF one] adv2 [rule_format, OF rest]
  show "length cur' < length cur" by simp
qed

lemma candle_args_advances: "advances (candle_args C)"
  unfolding candle_args_def
  by (simp add: parse_args_more_advances parse_args_last_advances parse_arg_advances)

lemma trade_args_advances: "advances (trade_args C)"
  unfolding trade_args_def
  by (simp add: parse_args_more_advances parse_args_last_advances parse_arg_advances)

lemma parse_candle_advances:
  assumes "parse_candle C cur = Some (c, cur')"
  shows "length cur' < length cur"
proof (cases "candle_args C cur")
  case None
  with assms show ?thesis by (simp add: parse_candle_def)
next
  case (Some r)
  with assms have "candle_args C cur = Some (fst r, cur')"
    by (cases r) (auto simp: parse_candle_def split: prod.splits)
  with candle_args_advances [of C] show ?thesis unfolding advances_def by blast
qed

lemma parse_trade_advances:
  assumes "parse_trade C cur = Some (t, cur')"
  shows "length cur' < length cur"
proof (cases "trade_args C cur")
  case None
  with assms show ?thesis by (simp add: parse_trade_def)
next
  case (Some r)
  with assms have "trade_args C cur = Some (fst r, cur')"
    by (cases r) (auto simp: parse_trade_def split: prod.splits)
  with trade_args_advances [of C] show ?thesis unfolding advances_def by blast
qed

subsection \<open>The two \<^verbatim>\<open>read\<close> functions\<close>

text \<open>
  The range-for loop of \<^verbatim>\<open>read\<close> (candles): it ends when the cursor of the iterator is
  the end of the buffer; a row that does not parse sets \<^verbatim>\<open>ec\<close> and returns false, with
  the candles pushed so far left in \<^verbatim>\<open>candles\<close>.
\<close>

function read_candles_loop ::
  "'d charconv \<Rightarrow> cursor \<Rightarrow> 'd candle list \<Rightarrow> error \<Rightarrow> bool \<times> 'd candle list \<times> error" where
  "read_candles_loop C cur candles ec =
     (if cur = [] then (True, candles, ec)
      else
        (case parse_candle C cur of
           None \<Rightarrow> (False, candles, invalid_candle_fields)
         | Some (candle, cur') \<Rightarrow>
             read_candles_loop C (next_row cur') (candles @ [candle]) ec))"
  by pat_completeness auto
termination
proof (relation "measure (\<lambda>(C, cur, candles, ec). length cur)")
  show "wf (measure (\<lambda>(C, cur, candles, ec). length cur))" by simp
next
  fix C :: "'d charconv" and cur :: cursor and candles :: "'d candle list" and ec :: error
    and x2 :: "'d candle \<times> cursor" and candle :: "'d candle" and cur' :: cursor
  assume "parse_candle C cur = Some x2" "(candle, cur') = x2"
  then have "parse_candle C cur = Some (candle, cur')" by simp
  from parse_candle_advances [OF this] length_next_row [of cur']
  show "((C, next_row cur', candles @ [candle], ec), C, cur, candles, ec)
      \<in> measure (\<lambda>(C, cur, candles, ec). length cur)"
    by simp
qed

declare read_candles_loop.simps [simp del]

text \<open>
  \<^verbatim>\<open>read\<close> (candles) on the text of the file; opening and reading the file is outside the
  model. \<^verbatim>\<open>candles.clear()\<close> empties the output before the loop.
\<close>

definition read_candles ::
  "'d charconv \<Rightarrow> string \<Rightarrow> 'd candle list \<Rightarrow> error \<Rightarrow> bool \<times> 'd candle list \<times> error" where
  "read_candles C source candles ec = read_candles_loop C (second_row source) [] ec"

function read_trades_loop ::
  "'d charconv \<Rightarrow> cursor \<Rightarrow> 'd trade list \<Rightarrow> error \<Rightarrow> bool \<times> 'd trade list \<times> error" where
  "read_trades_loop C cur trades ec =
     (if cur = [] then (True, trades, ec)
      else
        (case parse_trade C cur of
           None \<Rightarrow> (False, trades, invalid_trade_fields)
         | Some (trade, cur') \<Rightarrow>
             read_trades_loop C (next_row cur') (trades @ [trade]) ec))"
  by pat_completeness auto
termination
proof (relation "measure (\<lambda>(C, cur, trades, ec). length cur)")
  show "wf (measure (\<lambda>(C, cur, trades, ec). length cur))" by simp
next
  fix C :: "'d charconv" and cur :: cursor and trades :: "'d trade list" and ec :: error
    and x2 :: "'d trade \<times> cursor" and trade :: "'d trade" and cur' :: cursor
  assume "parse_trade C cur = Some x2" "(trade, cur') = x2"
  then have "parse_trade C cur = Some (trade, cur')" by simp
  from parse_trade_advances [OF this] length_next_row [of cur']
  show "((C, next_row cur', trades @ [trade], ec), C, cur, trades, ec)
      \<in> measure (\<lambda>(C, cur, trades, ec). length cur)"
    by simp
qed

declare read_trades_loop.simps [simp del]

definition read_trades ::
  "'d charconv \<Rightarrow> string \<Rightarrow> 'd trade list \<Rightarrow> error \<Rightarrow> bool \<times> 'd trade list \<times> error" where
  "read_trades C source trades ec = read_trades_loop C (first_row source) [] ec"

text \<open>
  For stating what a failed read leaves behind: \<open>parse_rows p n cur\<close> parses \<open>n\<close> rows
  from the row cursor \<open>cur\<close> on, as the loop does, and gives their values and the row
  cursor after them; it is \<open>None\<close> when the buffer ends or a row fails before that.
\<close>

fun parse_rows ::
  "(cursor \<Rightarrow> ('a \<times> cursor) option) \<Rightarrow> nat \<Rightarrow> cursor \<Rightarrow> ('a list \<times> cursor) option" where
  "parse_rows p 0 cur = Some ([], cur)"
| "parse_rows p (Suc n) cur =
     (if cur = [] then None
      else
        (case p cur of
           None \<Rightarrow> None
         | Some (v, cur') \<Rightarrow>
             (case parse_rows p n (next_row cur') of
                None \<Rightarrow> None
              | Some (vs, cur'') \<Rightarrow> Some (v # vs, cur''))))"

subsection \<open>What a read that fails leaves in its output\<close>

lemma read_candles_loop_end: "read_candles_loop C [] candles ec = (True, candles, ec)"
  by (subst read_candles_loop.simps) simp

lemma read_candles_loop_fail:
  "cur \<noteq> [] \<Longrightarrow> parse_candle C cur = None \<Longrightarrow>
   read_candles_loop C cur candles ec = (False, candles, invalid_candle_fields)"
  by (subst read_candles_loop.simps) simp

lemma read_candles_loop_row:
  "cur \<noteq> [] \<Longrightarrow> parse_candle C cur = Some (c, cur') \<Longrightarrow>
   read_candles_loop C cur candles ec = read_candles_loop C (next_row cur') (candles @ [c]) ec"
  by (subst read_candles_loop.simps) simp


lemma read_trades_loop_fail:
  "cur \<noteq> [] \<Longrightarrow> parse_trade C cur = None \<Longrightarrow>
   read_trades_loop C cur trades ec = (False, trades, invalid_trade_fields)"
  by (subst read_trades_loop.simps) simp


lemma parse_rows_end: "parse_rows p n [] = Some (rows, cur') \<Longrightarrow> cur' = []"
  by (cases n) simp_all

lemma rows_loop_failed_iff:
  fixes loop :: "cursor \<Rightarrow> 'a list \<Rightarrow> bool \<times> 'a list \<times> error"
  assumes adv: "\<And>cur v cur'. p cur = Some (v, cur') \<Longrightarrow> length cur' < length cur"
    and eq: "\<And>cur acc. loop cur acc =
      (if cur = [] then (True, acc, ec)
       else (case p cur of
               None \<Rightarrow> (False, acc, err)
             | Some (v, cur') \<Rightarrow> loop (next_row cur') (acc @ [v])))"
  shows "loop cur acc = (False, out, e) \<longleftrightarrow>
     (\<exists>n rows cur'. parse_rows p n cur = Some (rows, cur') \<and> cur' \<noteq> [] \<and>
        p cur' = None \<and> out = acc @ rows \<and> e = err)"
proof (induction "length cur" arbitrary: cur acc rule: less_induct)
  case less
  show ?case
  proof (cases "cur = []")
    case True
    then show ?thesis using parse_rows_end [of p] by (subst eq) auto
  next
    case ne: False
    show ?thesis
    proof (cases "p cur")
      case None
      have "parse_rows p n cur = Some (rows, cur') \<Longrightarrow> n = 0 \<and> rows = [] \<and> cur' = cur"
        for n rows cur'
        using ne None by (cases n) simp_all
      moreover have "parse_rows p 0 cur = Some ([], cur)" by simp
      moreover have "loop cur acc = (False, acc, err)" using ne None by (subst eq) simp
      ultimately show ?thesis
        using ne None by (metis Pair_inject append_Nil2)
    next
      case (Some r)
      obtain c cur1 where r: "r = (c, cur1)" by (cases r)
      have step: "loop cur acc = loop (next_row cur1) (acc @ [c])"
        using ne Some r by (subst eq) simp
      have "length (next_row cur1) < length cur"
        using adv [OF Some [unfolded r]] length_next_row [of cur1] by simp
      note IH = less [OF this, of "acc @ [c]"]
      have fwd: "\<exists>n rows cur'. parse_rows p n cur = Some (rows, cur') \<and> cur' \<noteq> [] \<and>
          p cur' = None \<and> out = acc @ rows \<and> e = err"
        if "\<exists>n rows cur'. parse_rows p n (next_row cur1) = Some (rows, cur') \<and>
          cur' \<noteq> [] \<and> p cur' = None \<and> out = (acc @ [c]) @ rows \<and> e = err"
      proof -
        from that obtain n rows cur' where
          h: "parse_rows p n (next_row cur1) = Some (rows, cur')" "cur' \<noteq> []"
            "p cur' = None" "out = (acc @ [c]) @ rows" "e = err"
          by blast
        have "parse_rows p (Suc n) cur = Some (c # rows, cur')"
          using ne Some r h(1) by simp
        with h show ?thesis by (intro exI [of _ "Suc n"] exI [of _ "c # rows"] exI [of _ cur']) simp
      qed
      have bwd: "\<exists>n rows cur'. parse_rows p n (next_row cur1) = Some (rows, cur') \<and>
          cur' \<noteq> [] \<and> p cur' = None \<and> out = (acc @ [c]) @ rows \<and> e = err"
        if "\<exists>n rows cur'. parse_rows p n cur = Some (rows, cur') \<and> cur' \<noteq> [] \<and>
          p cur' = None \<and> out = acc @ rows \<and> e = err"
      proof -
        from that obtain n rows cur' where
          h: "parse_rows p n cur = Some (rows, cur')" "cur' \<noteq> []"
            "p cur' = None" "out = acc @ rows" "e = err"
          by blast
        from h(1,3) Some have "n \<noteq> 0" by (cases n) auto
        then obtain m where n: "n = Suc m" by (cases n) auto
        from h(1) obtain rows' where
          "parse_rows p m (next_row cur1) = Some (rows', cur')" "rows = c # rows'"
          using ne Some r unfolding n by (auto split: option.splits)
        with h show ?thesis by (intro exI [of _ m] exI [of _ rows'] exI [of _ cur']) simp
      qed
      show ?thesis unfolding step IH using fwd bwd by blast
    qed
  qed
qed

lemma read_candles_loop_failed_iff:
  "read_candles_loop C cur candles ec = (False, out, e) \<longleftrightarrow>
     (\<exists>n rows cur'. parse_rows (parse_candle C) n cur = Some (rows, cur') \<and> cur' \<noteq> [] \<and>
        parse_candle C cur' = None \<and> out = candles @ rows \<and> e = invalid_candle_fields)"
proof (rule rows_loop_failed_iff [where loop = "\<lambda>cur acc. read_candles_loop C cur acc ec"
        and ec = ec])
  show "parse_candle C cur = Some (v, cur') \<Longrightarrow> length cur' < length cur" for cur v cur'
    by (rule parse_candle_advances)
  show "read_candles_loop C cur acc ec =
      (if cur = [] then (True, acc, ec)
       else (case parse_candle C cur of
               None \<Rightarrow> (False, acc, invalid_candle_fields)
             | Some (v, cur') \<Rightarrow> read_candles_loop C (next_row cur') (acc @ [v]) ec))"
    for cur acc
    by (subst read_candles_loop.simps) simp
qed

lemma read_trades_loop_failed_iff:
  "read_trades_loop C cur trades ec = (False, out, e) \<longleftrightarrow>
     (\<exists>n rows cur'. parse_rows (parse_trade C) n cur = Some (rows, cur') \<and> cur' \<noteq> [] \<and>
        parse_trade C cur' = None \<and> out = trades @ rows \<and> e = invalid_trade_fields)"
proof (rule rows_loop_failed_iff [where loop = "\<lambda>cur acc. read_trades_loop C cur acc ec"
        and ec = ec])
  show "parse_trade C cur = Some (v, cur') \<Longrightarrow> length cur' < length cur" for cur v cur'
    by (rule parse_trade_advances)
  show "read_trades_loop C cur acc ec =
      (if cur = [] then (True, acc, ec)
       else (case parse_trade C cur of
               None \<Rightarrow> (False, acc, invalid_trade_fields)
             | Some (v, cur') \<Rightarrow> read_trades_loop C (next_row cur') (acc @ [v]) ec))"
    for cur acc
    by (subst read_trades_loop.simps) simp
qed

subsection \<open>What a numeric field accepts\<close>










lemma parse_arg_empty_token:
  "peek cur = TAB \<or> peek cur = CR \<or> peek cur = LF \<or> peek cur = NUL \<or> peek cur = COMMA \<Longrightarrow>
   parse_arg try_parse cur = None"
  by (cases cur) (auto simp: parse_arg_def peek_def Let_def)

section \<open>Fields and rows by their spans\<close>


fun quoted_text :: "string \<Rightarrow> bool" where
  "quoted_text [] = True"
| "quoted_text [c] = (c \<noteq> DQUOTE \<and> c \<noteq> LF \<and> c \<noteq> NUL)"
| "quoted_text (c # d # rest) =
     (if c = DQUOTE then d = DQUOTE \<and> quoted_text rest
      else c \<noteq> LF \<and> c \<noteq> NUL \<and> quoted_text (d # rest))"




subsection \<open>One field\<close>





lemma quoted_text_pair: "quoted_text (DQUOTE # DQUOTE # field) = quoted_text field"
  by simp








subsection \<open>Rows of bare fields\<close>












section \<open>Writing rows (cosevalues.hpp, \<^verbatim>\<open>writer\<close>)\<close>

text \<open>
  The \<^verbatim>\<open>std::string buffer_\<close> of the writer: its characters and its capacity.
  \<^verbatim>\<open>resize\<close> cuts the string or pads it with NUL characters. The standard leaves open how
  far the capacity grows; the model lets it grow to the size asked for, and no result
  about the characters depends on it.
\<close>

record writer =
  buffer :: string
  capacity :: nat

definition string_resize :: "nat \<Rightarrow> writer \<Rightarrow> writer" where
  "string_resize n w = \<lparr>buffer = resize n NUL (buffer w), capacity = max (capacity w) n\<rparr>"

definition push_back :: "char \<Rightarrow> writer \<Rightarrow> writer" where
  "push_back c w =
     \<lparr>buffer = buffer w @ [c], capacity = max (capacity w) (length (buffer w) + 1)\<rparr>"

text \<open>Writing \<open>bytes\<close> through a pointer at offset \<open>p\<close> of the buffer.\<close>

definition store :: "nat \<Rightarrow> string \<Rightarrow> writer \<Rightarrow> writer" where
  "store p bytes w =
     w\<lparr>buffer := take p (buffer w) @ bytes @ drop (p + length bytes) (buffer w)\<rparr>"

definition nearest_power_of_2 :: "u64 \<Rightarrow> u64" where
  "nearest_power_of_2 n =
     (if n < 2 then 2
      else
        (let n1 = n - 1;
             n2 = n1 OR drop_bit 1 n1;
             n3 = n2 OR drop_bit 2 n2;
             n4 = n3 OR drop_bit 4 n3;
             n5 = n4 OR drop_bit 8 n4;
             n6 = n5 OR drop_bit 16 n5;
             n7 = n6 OR drop_bit 32 n6
         in n7 + 1))"

definition reserve :: "nat \<Rightarrow> writer \<Rightarrow> writer" where
  "reserve n w =
     w\<lparr>capacity := max (capacity w) (unat (nearest_power_of_2 (word_of_nat n)))\<rparr>"

text \<open>
  \<^verbatim>\<open>allocate(size)\<close> returns the pointer \<^verbatim>\<open>buffer_.data() + n\<close>, here the offset \<open>n\<close>, and
  \<^verbatim>\<open>free(end)\<close> cuts the buffer at the pointer \<^verbatim>\<open>end\<close>, here an offset too.
\<close>

definition allocate :: "nat \<Rightarrow> writer \<Rightarrow> nat \<times> writer" where
  "allocate n_bytes w =
     (let n = length (buffer w);
          new_size = length (buffer w) + n_bytes
      in (n,
          if capacity w < new_size
          then string_resize (unat (nearest_power_of_2 (word_of_nat new_size))) w
          else string_resize new_size w))"

definition free :: "nat \<Rightarrow> writer \<Rightarrow> writer" where
  "free e w = string_resize e w"

subsection \<open>\<^verbatim>\<open>std::to_chars\<close> for integers\<close>

text \<open>
  The C++ standard's \<^verbatim>\<open>std::to_chars(first, last, value)\<close> for an unsigned integer writes
  the decimal digits of the value without leading zeros and returns the pointer behind
  them. When they do not fit into \<^verbatim>\<open>[first, last)\<close> the error is \<^verbatim>\<open>value_too_large\<close>, the
  pointer returned is \<^verbatim>\<open>last\<close>, and the standard leaves the contents of the range
  unspecified; the model leaves the range as it was (for an unsigned value the
  implementations compute the length before they write anything). The overloads of
  \<^verbatim>\<open>format_arg\<close> for the signed integers and for \<^verbatim>\<open>float\<close> are not reached from
  \<^verbatim>\<open>swollencandle::write\<close>, which formats \<^verbatim>\<open>std::uint64_t\<close>, \<^verbatim>\<open>std::uint32_t\<close>, \<^verbatim>\<open>double\<close>
  and string literals only, and are not modelled.
\<close>

definition digit_char :: "nat \<Rightarrow> char" where
  "digit_char d = ''0123456789'' ! d"

function to_digits :: "nat \<Rightarrow> string" where
  "to_digits n = (if n < 10 then [digit_char n] else to_digits (n div 10) @ [digit_char (n mod 10)])"
  by pat_completeness auto
termination
  by (relation "measure (\<lambda>n. n)") auto

declare to_digits.simps [simp del]

definition to_chars_unsigned :: "nat \<Rightarrow> nat \<Rightarrow> errc + string" where
  "to_chars_unsigned room v =
     (if room < length (to_digits v) then Inl value_too_large else Inr (to_digits v))"

definition to_chars_floating :: "'d charconv \<Rightarrow> nat \<Rightarrow> 'd \<Rightarrow> errc + string" where
  "to_chars_floating C room v =
     (if room < length (to_chars_double C v) then Inl value_too_large
      else Inr (to_chars_double C v))"

subsection \<open>\<^verbatim>\<open>format_arg\<close> and \<^verbatim>\<open>format\<close>\<close>

text \<open>
  The numeric overloads of \<^verbatim>\<open>format_arg\<close> have one shape:
  \<^verbatim>\<open>p = allocate(digits); converted = std::to_chars(p, p + digits, arg); free(converted.ptr)\<close>.
\<close>

definition format_chars :: "nat \<Rightarrow> errc + string \<Rightarrow> writer \<Rightarrow> writer" where
  "format_chars digits converted w =
     (case allocate digits w of
        (p, w') \<Rightarrow>
          (case converted of
             Inr s \<Rightarrow> free (p + length s) (store p s w')
           | Inl e \<Rightarrow> free (p + digits) w'))"

definition format_arg_uint32 :: "u32 \<Rightarrow> writer \<Rightarrow> writer" where
  "format_arg_uint32 arg = format_chars 10 (to_chars_unsigned 10 (unat arg))"

definition format_arg_uint64 :: "u64 \<Rightarrow> writer \<Rightarrow> writer" where
  "format_arg_uint64 arg = format_chars 18 (to_chars_unsigned 18 (unat arg))"

definition format_arg_double :: "'d charconv \<Rightarrow> 'd \<Rightarrow> writer \<Rightarrow> writer" where
  "format_arg_double C arg = format_chars 32 (to_chars_floating C 32 arg)"

text \<open>
  \<^verbatim>\<open>format_arg(char const (&arg)[N])\<close> for a literal of \<open>N - 1\<close> characters and its NUL,
  and \<^verbatim>\<open>format_arg(char const* arg)\<close> for a pointer that is not null. For a string literal
  overload resolution prefers the second, which is not a template; they differ in the
  size they allocate and append the same characters (\<open>format_arg_literal_buffer\<close>,
  \<open>format_arg_cstr_buffer\<close>).
\<close>

definition format_arg_literal :: "string \<Rightarrow> writer \<Rightarrow> writer" where
  "format_arg_literal arg w =
     (let N = length arg + 1
      in case allocate (N + 2) w of
           (p, w0) \<Rightarrow>
             (let w1 = store p [DQUOTE] w0;
                  p1 = p + 1;
                  w2 = store p1 arg w1;
                  p2 = p1 + (N - 1);
                  w3 = store p2 [DQUOTE] w2;
                  p3 = p2 + 1
              in free p3 w3))"

definition format_arg_cstr :: "string \<Rightarrow> writer \<Rightarrow> writer" where
  "format_arg_cstr arg w =
     (let n = length arg
      in case allocate (n + 2) w of
           (p, w0) \<Rightarrow>
             (let w1 = store p [DQUOTE] w0;
                  p1 = p + 1;
                  w2 = store p1 arg w1;
                  p2 = p1 + n;
                  w3 = store p2 [DQUOTE] w2;
                  p3 = p2 + 1
              in free p3 w3))"

text \<open>
  \<^verbatim>\<open>format_args<I>\<close> over the arguments, each given as the \<^verbatim>\<open>format_arg\<close> call that its
  type selects: a comma after every argument but the last, a newline after the last.
  \<^verbatim>\<open>format\<close> has at least one argument.
\<close>

fun format_args :: "(writer \<Rightarrow> writer) list \<Rightarrow> writer \<Rightarrow> writer" where
  "format_args [] w = w"
| "format_args [format_arg] w = push_back LF (format_arg w)"
| "format_args (format_arg # args) w = format_args args (push_back COMMA (format_arg w))"

subsection \<open>The two \<^verbatim>\<open>write\<close> functions\<close>

definition format_header :: "writer \<Rightarrow> writer" where
  "format_header =
     format_args
       [format_arg_cstr ''time'', format_arg_cstr ''period'', format_arg_cstr ''trades'',
        format_arg_cstr ''volume'', format_arg_cstr ''vwap_price'',
        format_arg_cstr ''open_price'', format_arg_cstr ''high_price'',
        format_arg_cstr ''low_price'', format_arg_cstr ''close_price'']"

definition format_candle :: "'d charconv \<Rightarrow> 'd candle \<Rightarrow> writer \<Rightarrow> writer" where
  "format_candle C c =
     format_args
       [format_arg_uint64 (candle.time c), format_arg_uint32 (period c),
        format_arg_uint64 (count c), format_arg_double C (volume c),
        format_arg_double C (vwap_price c), format_arg_double C (open_price c),
        format_arg_double C (high_price c), format_arg_double C (low_price c),
        format_arg_double C (close_price c)]"

definition format_trade :: "'d charconv \<Rightarrow> 'd trade \<Rightarrow> writer \<Rightarrow> writer" where
  "format_trade C t =
     format_args
       [format_arg_uint64 (trade.time t), format_arg_double C (price t),
        format_arg_double C (amount t)]"

text \<open>
  \<^verbatim>\<open>write\<close> (candles) and \<^verbatim>\<open>write\<close> (trades) up to \<^verbatim>\<open>writer.to_file\<close>: the result is the
  buffer that is written to the file. The writer starts with an empty string;
  \<^verbatim>\<open>candles.size() * line_estimation\<close> is a product in \<^verbatim>\<open>size_t\<close>.
\<close>

definition new_writer :: writer where
  "new_writer = \<lparr>buffer = [], capacity = 0\<rparr>"

definition write_candles :: "'d charconv \<Rightarrow> 'd candle list \<Rightarrow> string" where
  "write_candles C candles =
     buffer (fold (format_candle C) candles
               (format_header (reserve (length candles * 72 mod 2 ^ 64) new_writer)))"

definition write_trades :: "'d charconv \<Rightarrow> 'd trade list \<Rightarrow> string" where
  "write_trades C trades =
     buffer (fold (format_trade C) trades (reserve (length trades * 72 mod 2 ^ 64) new_writer))"

subsection \<open>What the writer appends\<close>

lemma smear_step:
  fixes y :: u64
  assumes "uint y < 2 ^ 63"
  shows "uint (y OR drop_bit k y) < 2 ^ 63 \<and> y \<le> y OR drop_bit k y"
proof -
  have "unat (drop_bit k y) = drop_bit k (unat y)" by (rule unat_drop_bit_eq)
  then have "unat (drop_bit k y) = unat y div 2 ^ k" by (simp only: drop_bit_eq_div)
  then have "unat (drop_bit k y) \<le> unat y" by simp
  then have "uint (drop_bit k y) \<le> uint y" by (simp add: word_le_nat_alt [symmetric] word_le_def)
  then have d: "uint (drop_bit k y) < 2 ^ 63" using assms by simp
  have "uint y OR uint (drop_bit k y) < 2 ^ 63"
    by (rule OR_upper [OF _ assms d]) simp
  then have "uint (y OR drop_bit k y) < 2 ^ 63"
    by (simp only: uint_or)
  moreover have "y \<le> y OR drop_bit k y" by (rule le_word_or2)
  ultimately show ?thesis by simp
qed

lemma uint_less_iff_unat: "uint (y :: u64) < 2 ^ 63 \<longleftrightarrow> unat y < 2 ^ 63"
proof -
  have "(2 :: int) ^ 63 = int (2 ^ 63)" by (simp only: of_nat_power of_nat_numeral)
  then show ?thesis by (simp only: uint_nat of_nat_less_iff)
qed

lemma nearest_power_of_2_ge:
  assumes "n \<le> 2 ^ 63"
  shows "n \<le> unat (nearest_power_of_2 (word_of_nat n))"
proof (cases "n < 2")
  case True
  then have "n = 0 \<or> n = 1" by arith
  then have "(word_of_nat n :: u64) < 2" by auto
  then have "nearest_power_of_2 (word_of_nat n) = 2" by (simp add: nearest_power_of_2_def)
  with True show ?thesis by simp
next
  case False
  define x :: u64 where "x = word_of_nat n"
  have n64: "n < 2 ^ 64" using assms by (simp add: order_le_less_trans [of n "2 ^ 63"])
  then have ux: "unat x = n" by (simp add: x_def unat_of_nat)
  then have x2: "\<not> x < 2" using False by (simp add: word_less_nat_alt)
  define n1 where "n1 = x - 1"
  define n2 where "n2 = n1 OR drop_bit 1 n1"
  define n3 where "n3 = n2 OR drop_bit 2 n2"
  define n4 where "n4 = n3 OR drop_bit 4 n3"
  define n5 where "n5 = n4 OR drop_bit 8 n4"
  define n6 where "n6 = n5 OR drop_bit 16 n5"
  define n7 where "n7 = n6 OR drop_bit 32 n6"
  have "x \<noteq> 0" using ux False by auto
  then have u1: "unat n1 = n - 1" using ux by (simp add: n1_def unat_minus_one)
  then have "unat n1 < 2 ^ 63" using assms False by simp
  then have b1: "uint n1 < 2 ^ 63" by (simp only: uint_less_iff_unat)
  note s2 = smear_step [OF b1, of 1, folded n2_def]
  note s3 = smear_step [OF s2 [THEN conjunct1], of 2, folded n3_def]
  note s4 = smear_step [OF s3 [THEN conjunct1], of 4, folded n4_def]
  note s5 = smear_step [OF s4 [THEN conjunct1], of 8, folded n5_def]
  note s6 = smear_step [OF s5 [THEN conjunct1], of 16, folded n6_def]
  note s7 = smear_step [OF s6 [THEN conjunct1], of 32, folded n7_def]
  have "n1 \<le> n7" using s2 s3 s4 s5 s6 s7 by (meson order_trans)
  then have le: "unat n1 \<le> unat n7" by (simp add: word_le_nat_alt)
  have "unat n7 < 2 ^ 63" using s7 by (simp only: uint_less_iff_unat)
  then have "unat (n7 + 1) = unat n7 + 1" by (simp add: unat_word_ariths)
  moreover have "nearest_power_of_2 x = n7 + 1"
    using x2 by (simp add: nearest_power_of_2_def Let_def n1_def n2_def n3_def n4_def n5_def
        n6_def n7_def)
  ultimately show ?thesis using le u1 False unfolding x_def by simp
qed

lemma buffer_string_resize: "buffer (string_resize n w) = resize n NUL (buffer w)"
  by (simp add: string_resize_def)

lemma buffer_push_back: "buffer (push_back c w) = buffer w @ [c]"
  by (simp add: push_back_def)

lemma buffer_store:
  "buffer (store p bytes w) = take p (buffer w) @ bytes @ drop (p + length bytes) (buffer w)"
  by (simp add: store_def)

lemma allocate_buffer:
  assumes "length (buffer w) + k \<le> 2 ^ 63"
  shows "\<exists>w' j. allocate k w = (length (buffer w), w') \<and> k \<le> j \<and>
           buffer w' = buffer w @ replicate j NUL"
proof -
  let ?n = "length (buffer w)"
  let ?m = "unat (nearest_power_of_2 (word_of_nat (?n + k)))"
  have m: "?n + k \<le> ?m" using nearest_power_of_2_ge [OF assms] .
  show ?thesis
  proof (cases "capacity w < ?n + k")
    case True
    then have "allocate k w = (?n, string_resize ?m w)" by (simp add: allocate_def Let_def)
    moreover have "buffer (string_resize ?m w) = buffer w @ replicate (?m - ?n) NUL"
      using m by (simp add: buffer_string_resize resize_def)
    moreover have "k \<le> ?m - ?n" using m by simp
    ultimately show ?thesis by blast
  next
    case False
    then have "allocate k w = (?n, string_resize (?n + k) w)" by (simp add: allocate_def Let_def)
    moreover have "buffer (string_resize (?n + k) w) = buffer w @ replicate k NUL"
      by (simp add: buffer_string_resize resize_def)
    ultimately show ?thesis by blast
  qed
qed

lemma free_store:
  assumes "buffer w' = b @ replicate j NUL" "length s \<le> j"
  shows "buffer (free (length b + length s) (store (length b) s w')) = b @ s"
  using assms by (simp add: free_def buffer_string_resize buffer_store resize_def)

lemma format_chars_buffer:
  assumes "length (buffer w) + digits \<le> 2 ^ 63"
    and "\<And>s. converted = Inr s \<Longrightarrow> length s \<le> digits"
  shows "buffer (format_chars digits converted w) =
     buffer w @ (case converted of Inr s \<Rightarrow> s | Inl e \<Rightarrow> replicate digits NUL)"
proof -
  from allocate_buffer [OF assms(1)] obtain w' j where
    a: "allocate digits w = (length (buffer w), w')" "digits \<le> j"
      "buffer w' = buffer w @ replicate j NUL"
    by blast
  show ?thesis
  proof (cases converted)
    case (Inl e)
    then show ?thesis
      using a by (simp add: format_chars_def free_def buffer_string_resize resize_def)
  next
    case (Inr s)
    with assms(2) a(2) have "length s \<le> j" by fastforce
    from free_store [OF a(3) this] show ?thesis using a(1) Inr by (simp add: format_chars_def)
  qed
qed

lemma format_arg_cstr_buffer:
  assumes "length (buffer w) + length arg + 2 \<le> 2 ^ 63"
  shows "buffer (format_arg_cstr arg w) = buffer w @ DQUOTE # arg @ [DQUOTE]"
proof -
  from assms have "length (buffer w) + (length arg + 2) \<le> 2 ^ 63" by simp
  from allocate_buffer [OF this] obtain w' j where
    a: "allocate (length arg + 2) w = (length (buffer w), w')" "length arg + 2 \<le> j"
      "buffer w' = buffer w @ replicate j NUL"
    by blast
  define j' where "j' = j - (length arg + 2)"
  have j: "j = length arg + 2 + j'" using a(2) by (simp add: j'_def)
  show ?thesis
    using a(1,3) unfolding j
    by (simp add: format_arg_cstr_def Let_def free_def buffer_string_resize buffer_store
        resize_def replicate_add)
qed

lemma format_arg_literal_buffer:
  assumes "length (buffer w) + length arg + 3 \<le> 2 ^ 63"
  shows "buffer (format_arg_literal arg w) = buffer w @ DQUOTE # arg @ [DQUOTE]"
proof -
  from assms have "length (buffer w) + (length arg + 1 + 2) \<le> 2 ^ 63" by simp
  from allocate_buffer [OF this] obtain w' j where
    a: "allocate (length arg + 1 + 2) w = (length (buffer w), w')" "length arg + 1 + 2 \<le> j"
      "buffer w' = buffer w @ replicate j NUL"
    by blast
  define j' where "j' = j - (length arg + 2)"
  have j: "j = length arg + 2 + j'" using a(2) by (simp add: j'_def)
  show ?thesis
    using a(1,3) unfolding j
    by (simp add: format_arg_literal_def Let_def free_def buffer_string_resize buffer_store
        resize_def replicate_add)
qed

text \<open>
  What a numeric \<^verbatim>\<open>format_arg\<close> leaves in the buffer: the characters of the conversion,
  or, when \<^verbatim>\<open>std::to_chars\<close> fails, the whole allocated range as \<^verbatim>\<open>resize\<close> filled it.
  \<open>writes f room text\<close>: on a buffer with \<open>room\<close> bytes left below \<open>2 ^ 63\<close> (the largest
  size for which \<^verbatim>\<open>nearest_power_of_2\<close> does not wrap), \<open>f\<close> appends \<open>text\<close>.
\<close>

definition appended :: "nat \<Rightarrow> errc + string \<Rightarrow> string" where
  "appended digits converted =
     (case converted of Inr s \<Rightarrow> s | Inl e \<Rightarrow> replicate digits NUL)"

definition quoted :: "string \<Rightarrow> string" where
  "quoted s = DQUOTE # s @ [DQUOTE]"

definition writes :: "(writer \<Rightarrow> writer) \<Rightarrow> nat \<Rightarrow> string \<Rightarrow> bool" where
  "writes f room text \<longleftrightarrow>
     length text \<le> room \<and>
     (\<forall>w. length (buffer w) + room \<le> 2 ^ 63 \<longrightarrow> buffer (f w) = buffer w @ text)"

lemma writes_format_chars:
  assumes "\<And>s. converted = Inr s \<Longrightarrow> length s \<le> digits"
  shows "writes (format_chars digits converted) digits (appended digits converted)"
  unfolding writes_def
proof (intro conjI allI impI)
  show "length (appended digits converted) \<le> digits"
    using assms by (cases converted) (simp_all add: appended_def)
  fix w :: writer assume "length (buffer w) + digits \<le> 2 ^ 63"
  from format_chars_buffer [OF this assms]
  show "buffer (format_chars digits converted w) = buffer w @ appended digits converted"
    by (simp add: appended_def)
qed

lemma to_chars_unsigned_fits: "to_chars_unsigned room v = Inr s \<Longrightarrow> length s \<le> room"
  by (auto simp: to_chars_unsigned_def split: if_splits)

lemma to_chars_floating_fits: "to_chars_floating C room v = Inr s \<Longrightarrow> length s \<le> room"
  by (auto simp: to_chars_floating_def split: if_splits)

lemma writes_uint64:
  "writes (format_arg_uint64 v) 18 (appended 18 (to_chars_unsigned 18 (unat v)))"
  unfolding format_arg_uint64_def by (rule writes_format_chars) (rule to_chars_unsigned_fits)

lemma writes_uint32:
  "writes (format_arg_uint32 v) 10 (appended 10 (to_chars_unsigned 10 (unat v)))"
  unfolding format_arg_uint32_def by (rule writes_format_chars) (rule to_chars_unsigned_fits)

lemma writes_double:
  "writes (format_arg_double C v) 32 (appended 32 (to_chars_floating C 32 v))"
  unfolding format_arg_double_def by (rule writes_format_chars) (rule to_chars_floating_fits)

lemma writes_cstr: "writes (format_arg_cstr s) (length s + 2) (quoted s)"
  unfolding writes_def
proof (intro conjI allI impI)
  show "length (quoted s) \<le> length s + 2" by (simp add: quoted_def)
  fix w :: writer assume "length (buffer w) + (length s + 2) \<le> 2 ^ 63"
  then have "length (buffer w) + length s + 2 \<le> 2 ^ 63" by (simp only: add.assoc)
  from format_arg_cstr_buffer [OF this]
  show "buffer (format_arg_cstr s w) = buffer w @ quoted s" by (simp add: quoted_def)
qed

lemma writes_push_back: "writes (push_back c) 1 [c]"
  by (simp add: writes_def buffer_push_back)

lemma writes_then:
  assumes "writes f k t" "writes g k' t'"
  shows "writes (g \<circ> f) (k + k') (t @ t')"
  unfolding writes_def
proof (intro conjI allI impI)
  from assms show "length (t @ t') \<le> k + k'" by (simp add: writes_def)
  fix w :: writer assume room: "length (buffer w) + (k + k') \<le> 2 ^ 63"
  then have "length (buffer w) + k \<le> 2 ^ 63" by (rule order_trans [rotated]) simp
  with assms(1) have f: "buffer (f w) = buffer w @ t" "length t \<le> k"
    by (simp_all add: writes_def)
  have "length (buffer (f w)) + k' \<le> length (buffer w) + (k + k')" using f by simp
  then have "length (buffer (f w)) + k' \<le> 2 ^ 63" using room by (rule order_trans)
  with assms(2) have "buffer (g (f w)) = buffer (f w) @ t'" by (simp add: writes_def)
  with f show "buffer ((g \<circ> f) w) = buffer w @ t @ t'" by simp
qed

lemma writes_id: "writes (\<lambda>w. w) 0 []"
  by (simp add: writes_def)

lemma writes_fold:
  assumes "\<And>x. writes (f x) k (t x)"
  shows "writes (fold f xs) (k * length xs) (concat (map t xs))"
proof (induction xs rule: rev_induct)
  case Nil
  show ?case using writes_id by (simp add: id_def)
next
  case (snoc x xs)
  from writes_then [OF snoc assms [of x]]
  show ?case by (simp add: comp_def add.commute)
qed


text \<open>The text of one candle row and of the header row, as \<^verbatim>\<open>write\<close> (candles) emits them.\<close>

definition candle_row :: "'d charconv \<Rightarrow> 'd candle \<Rightarrow> string" where
  "candle_row C c =
     appended 18 (to_chars_unsigned 18 (unat (candle.time c))) @ COMMA #
     appended 10 (to_chars_unsigned 10 (unat (period c))) @ COMMA #
     appended 18 (to_chars_unsigned 18 (unat (count c))) @ COMMA #
     appended 32 (to_chars_floating C 32 (volume c)) @ COMMA #
     appended 32 (to_chars_floating C 32 (vwap_price c)) @ COMMA #
     appended 32 (to_chars_floating C 32 (open_price c)) @ COMMA #
     appended 32 (to_chars_floating C 32 (high_price c)) @ COMMA #
     appended 32 (to_chars_floating C 32 (low_price c)) @ COMMA #
     appended 32 (to_chars_floating C 32 (close_price c)) @ [LF]"

definition header_line :: string where
  "header_line =
     quoted ''time'' @ COMMA # quoted ''period'' @ COMMA # quoted ''trades'' @ COMMA #
     quoted ''volume'' @ COMMA # quoted ''vwap_price'' @ COMMA # quoted ''open_price'' @ COMMA #
     quoted ''high_price'' @ COMMA # quoted ''low_price'' @ COMMA # quoted ''close_price''"

definition header_row :: string where
  "header_row = header_line @ [LF]"

lemma writes_field:
  "writes f k t \<Longrightarrow> writes (push_back c \<circ> f) (k + 1) (t @ [c])"
  by (rule writes_then [OF _ writes_push_back])

lemma writes_format_candle: "writes (format_candle C c) 247 (candle_row C c)"
proof -
  note f1 = writes_field [OF writes_uint64 [of "candle.time c"], of COMMA]
  note f2 = writes_then [OF f1 writes_field [OF writes_uint32 [of "period c"], of COMMA]]
  note f3 = writes_then [OF f2 writes_field [OF writes_uint64 [of "count c"], of COMMA]]
  note f4 = writes_then [OF f3 writes_field [OF writes_double [of C "volume c"], of COMMA]]
  note f5 = writes_then [OF f4 writes_field [OF writes_double [of C "vwap_price c"], of COMMA]]
  note f6 = writes_then [OF f5 writes_field [OF writes_double [of C "open_price c"], of COMMA]]
  note f7 = writes_then [OF f6 writes_field [OF writes_double [of C "high_price c"], of COMMA]]
  note f8 = writes_then [OF f7 writes_field [OF writes_double [of C "low_price c"], of COMMA]]
  note f9 = writes_then [OF f8 writes_field [OF writes_double [of C "close_price c"], of LF]]
  have "format_candle C c =
      (push_back LF \<circ> format_arg_double C (close_price c)) \<circ>
      ((push_back COMMA \<circ> format_arg_double C (low_price c)) \<circ>
      ((push_back COMMA \<circ> format_arg_double C (high_price c)) \<circ>
      ((push_back COMMA \<circ> format_arg_double C (open_price c)) \<circ>
      ((push_back COMMA \<circ> format_arg_double C (vwap_price c)) \<circ>
      ((push_back COMMA \<circ> format_arg_double C (volume c)) \<circ>
      ((push_back COMMA \<circ> format_arg_uint64 (count c)) \<circ>
      ((push_back COMMA \<circ> format_arg_uint32 (period c)) \<circ>
      (push_back COMMA \<circ> format_arg_uint64 (candle.time c)))))))))"
    by (simp add: format_candle_def fun_eq_iff)
  moreover have "candle_row C c =
      ((((((((appended 18 (to_chars_unsigned 18 (unat (candle.time c))) @ [COMMA]) @
      appended 10 (to_chars_unsigned 10 (unat (period c))) @ [COMMA]) @
      appended 18 (to_chars_unsigned 18 (unat (count c))) @ [COMMA]) @
      appended 32 (to_chars_floating C 32 (volume c)) @ [COMMA]) @
      appended 32 (to_chars_floating C 32 (vwap_price c)) @ [COMMA]) @
      appended 32 (to_chars_floating C 32 (open_price c)) @ [COMMA]) @
      appended 32 (to_chars_floating C 32 (high_price c)) @ [COMMA]) @
      appended 32 (to_chars_floating C 32 (low_price c)) @ [COMMA]) @
      appended 32 (to_chars_floating C 32 (close_price c)) @ [LF]"
    by (simp add: candle_row_def)
  moreover have "(247 :: nat) = 18 + 1 + (10 + 1) + (18 + 1) + (32 + 1) + (32 + 1) + (32 + 1) +
      (32 + 1) + (32 + 1) + (32 + 1)"
    by simp
  ultimately show ?thesis using f9 by (simp only:)
qed

lemma writes_format_header: "writes format_header 99 header_row"
proof -
  note f1 = writes_field [OF writes_cstr [of "''time''"], of COMMA]
  note f2 = writes_then [OF f1 writes_field [OF writes_cstr [of "''period''"], of COMMA]]
  note f3 = writes_then [OF f2 writes_field [OF writes_cstr [of "''trades''"], of COMMA]]
  note f4 = writes_then [OF f3 writes_field [OF writes_cstr [of "''volume''"], of COMMA]]
  note f5 = writes_then [OF f4 writes_field [OF writes_cstr [of "''vwap_price''"], of COMMA]]
  note f6 = writes_then [OF f5 writes_field [OF writes_cstr [of "''open_price''"], of COMMA]]
  note f7 = writes_then [OF f6 writes_field [OF writes_cstr [of "''high_price''"], of COMMA]]
  note f8 = writes_then [OF f7 writes_field [OF writes_cstr [of "''low_price''"], of COMMA]]
  note f9 = writes_then [OF f8 writes_field [OF writes_cstr [of "''close_price''"], of LF]]
  have "format_header =
      (push_back LF \<circ> format_arg_cstr ''close_price'') \<circ>
      ((push_back COMMA \<circ> format_arg_cstr ''low_price'') \<circ>
      ((push_back COMMA \<circ> format_arg_cstr ''high_price'') \<circ>
      ((push_back COMMA \<circ> format_arg_cstr ''open_price'') \<circ>
      ((push_back COMMA \<circ> format_arg_cstr ''vwap_price'') \<circ>
      ((push_back COMMA \<circ> format_arg_cstr ''volume'') \<circ>
      ((push_back COMMA \<circ> format_arg_cstr ''trades'') \<circ>
      ((push_back COMMA \<circ> format_arg_cstr ''period'') \<circ>
      (push_back COMMA \<circ> format_arg_cstr ''time''))))))))"
    by (simp add: format_header_def fun_eq_iff)
  moreover have "header_row =
      ((((((((quoted ''time'' @ [COMMA]) @
      quoted ''period'' @ [COMMA]) @ quoted ''trades'' @ [COMMA]) @ quoted ''volume'' @ [COMMA]) @
      quoted ''vwap_price'' @ [COMMA]) @ quoted ''open_price'' @ [COMMA]) @
      quoted ''high_price'' @ [COMMA]) @ quoted ''low_price'' @ [COMMA]) @
      quoted ''close_price'' @ [LF]"
    by (simp add: header_row_def header_line_def)
  moreover have "(99 :: nat) = length ''time'' + 2 + 1 + (length ''period'' + 2 + 1) +
      (length ''trades'' + 2 + 1) + (length ''volume'' + 2 + 1) +
      (length ''vwap_price'' + 2 + 1) + (length ''open_price'' + 2 + 1) +
      (length ''high_price'' + 2 + 1) + (length ''low_price'' + 2 + 1) +
      (length ''close_price'' + 2 + 1)"
    by simp
  ultimately show ?thesis using f9 by (simp only:)
qed

lemma write_candles_text:
  assumes "length candles < 2 ^ 54"
  shows "write_candles C candles = header_row @ concat (map (candle_row C) candles)"
proof -
  define w0 where "w0 = reserve (length candles * 72 mod 2 ^ 64) new_writer"
  have b0: "buffer w0 = []" by (simp add: w0_def reserve_def new_writer_def)
  have room: "99 + 247 * length candles \<le> 2 ^ 63" using assms by simp
  note w = writes_then [OF writes_format_header
      writes_fold [where f = "format_candle C" and xs = candles, OF writes_format_candle]]
  have "length (buffer w0) + (99 + 247 * length candles) \<le> 2 ^ 63"
    unfolding b0 using room by simp
  with w have "buffer ((fold (format_candle C) candles \<circ> format_header) w0) =
      buffer w0 @ header_row @ concat (map (candle_row C) candles)"
    unfolding writes_def by blast
  then have "buffer (fold (format_candle C) candles (format_header w0)) =
      header_row @ concat (map (candle_row C) candles)"
    by (simp add: b0)
  then show ?thesis unfolding write_candles_def w0_def .
qed

subsection \<open>Decimal digits\<close>

lemma to_digits_small: "n < 10 \<Longrightarrow> to_digits n = [digit_char n]"
  by (subst to_digits.simps) simp

lemma to_digits_large:
  "\<not> n < 10 \<Longrightarrow> to_digits n = to_digits (n div 10) @ [digit_char (n mod 10)]"
  by (subst to_digits.simps) simp

lemma length_to_digits_le: "0 < k \<Longrightarrow> n < 10 ^ k \<Longrightarrow> length (to_digits n) \<le> k"
proof (induction n arbitrary: k rule: to_digits.induct)
  case (1 n)
  show ?case
  proof (cases "n < 10")
    case True
    with "1.prems" show ?thesis by (simp add: to_digits_small)
  next
    case False
    with "1.prems" obtain k' where k: "k = Suc k'" by (cases k) auto
    have "0 < k'" using False "1.prems" k by (cases k') auto
    moreover have "n div 10 < 10 ^ k'" using "1.prems"(2) k
      by (simp add: less_mult_imp_div_less mult.commute)
    ultimately have "length (to_digits (n div 10)) \<le> k'" using "1.IH" [OF False] by blast
    then show ?thesis using False k by (simp add: to_digits_large)
  qed
qed

lemma length_to_digits_gt: "10 ^ k \<le> n \<Longrightarrow> k < length (to_digits n)"
proof (induction n arbitrary: k rule: to_digits.induct)
  case (1 n)
  show ?case
  proof (cases "n < 10")
    case True
    have "k = 0"
    proof (rule ccontr)
      assume "k \<noteq> 0"
      then have "(10 :: nat) ^ 1 \<le> 10 ^ k" by (intro power_increasing) auto
      with "1.prems" True show False by simp
    qed
    then show ?thesis using True by (simp add: to_digits_small)
  next
    case False
    show ?thesis
    proof (cases k)
      case 0
      then show ?thesis using False by (simp add: to_digits_large)
    next
      case (Suc k')
      with "1.prems" have "10 ^ k' \<le> n div 10"
        by (simp add: less_eq_div_iff_mult_less_eq mult.commute)
      from "1.IH" [OF False this] show ?thesis using False Suc by (simp add: to_digits_large)
    qed
  qed
qed

lemma digit_char_cases:
  assumes "d < 10"
  shows "is_digit (digit_char d) \<and> digit_value (digit_char d) = d \<and>
         (digit_char d = CHR ''0'' \<longleftrightarrow> d = 0)"
proof -
  from assms have "d = 0 \<or> d = 1 \<or> d = 2 \<or> d = 3 \<or> d = 4 \<or> d = 5 \<or> d = 6 \<or> d = 7 \<or>
      d = 8 \<or> d = 9"
    by arith
  then show ?thesis
    by (elim disjE) (simp_all add: digit_char_def is_digit_def digit_value_def)
qed

lemma digits_value_snoc: "digits_value (ds @ [c]) = 10 * digits_value ds + digit_value c"
  by (simp add: digits_value_def)

lemma to_digits_decimal:
  "list_all is_digit (to_digits n) \<and> digits_value (to_digits n) = n \<and>
   to_digits n \<noteq> [] \<and> (hd (to_digits n) = CHR ''0'' \<longleftrightarrow> n = 0)"
proof (induction n rule: to_digits.induct)
  case (1 n)
  show ?case
  proof (cases "n < 10")
    case True
    with digit_char_cases [OF True] show ?thesis
      by (simp add: to_digits_small digits_value_def)
  next
    case False
    have d: "n mod 10 < 10" by simp
    note IH = "1.IH" [OF False]
    from False have "n div 10 \<noteq> 0" by (simp add: div_eq_0_iff)
    with IH digit_char_cases [OF d] False show ?thesis
      by (auto simp: to_digits_large digits_value_snoc)
  qed
qed

lemma format_arg_uint64_small:
  fixes w :: writer
  assumes "unat v < 10 ^ 18" "length (buffer w) + 18 \<le> 2 ^ 63"
  shows "buffer (format_arg_uint64 v w) = buffer w @ to_digits (unat v)"
proof -
  have "length (to_digits (unat v)) \<le> 18" by (rule length_to_digits_le [OF _ assms(1)]) simp
  then have "appended 18 (to_chars_unsigned 18 (unat v)) = to_digits (unat v)"
    by (simp add: appended_def to_chars_unsigned_def)
  with writes_uint64 [of v] assms(2) show ?thesis by (simp add: writes_def)
qed

lemma appended_uint64_large:
  assumes "10 ^ 18 \<le> unat v"
  shows "appended 18 (to_chars_unsigned 18 (unat v)) = replicate 18 NUL"
proof -
  have "18 < length (to_digits (unat v))" by (rule length_to_digits_gt [OF assms])
  then show ?thesis by (simp add: appended_def to_chars_unsigned_def)
qed

lemma format_arg_uint64_large:
  fixes w :: writer
  assumes "10 ^ 18 \<le> unat v" "length (buffer w) + 18 \<le> 2 ^ 63"
  shows "buffer (format_arg_uint64 v w) = buffer w @ replicate 18 NUL"
  using writes_uint64 [of v] assms(2) appended_uint64_large [OF assms(1)]
  by (simp add: writes_def)

subsection \<open>Reading back what was written\<close>

lemma header_line_no_newline: "takeWhile (\<lambda>c. c \<noteq> LF) (header_line @ LF # rest) = header_line"
  by (simp add: header_line_def quoted_def)

lemma skip_to_second_row:
  "second_row (header_row @ NUL # rest) = NUL # rest"
  by (simp add: second_row_def next_row_def header_row_def header_line_def quoted_def)

lemma parse_candle_at_nul: "parse_candle C (NUL # rest) = None"
  by (simp add: parse_candle_def candle_args_def parse_args_more_def parse_arg_def peek_def)

lemma candle_row_large_time:
  assumes "10 ^ 18 \<le> unat (candle.time c)"
  shows "\<exists>rest. candle_row C c = NUL # rest"
  unfolding candle_row_def appended_uint64_large [OF assms]
  by (simp add: numeral_eq_Suc)

lemma read_written_large_time:
  assumes "10 ^ 18 \<le> unat (candle.time c)" "length (c # cs) < 2 ^ 54"
  shows "read_candles C (write_candles C (c # cs)) out ec = (False, [], invalid_candle_fields)"
proof -
  from candle_row_large_time [OF assms(1)] obtain rest where "candle_row C c = NUL # rest"
    by blast
  then have "write_candles C (c # cs) =
      header_row @ NUL # (rest @ concat (map (candle_row C) cs))"
    by (simp add: write_candles_text [OF assms(2)])
  then have "second_row (write_candles C (c # cs)) =
      NUL # (rest @ concat (map (candle_row C) cs))"
    by (simp only: skip_to_second_row)
  then show ?thesis
    by (simp add: read_candles_def read_candles_loop_fail parse_candle_at_nul)
qed

section \<open>Concrete inputs\<close>

text \<open>
  For evaluating the functions on concrete inputs the floating-point parameter is
  instantiated with real arithmetic: on the small integral values used below the IEEE
  operations are exact and agree with it. \<open>flat_candle t p x\<close> is the candle of one trade
  of amount 1 at price \<open>x\<close>.
\<close>

definition real_fp :: "real fp" where
  "real_fp = \<lparr>fzero = 0, fadd = (+), fmul = (*), fdiv = (/), fgt = (>), flt = (<), feq = (=)\<rparr>"

definition flat_candle :: "u64 \<Rightarrow> u32 \<Rightarrow> real \<Rightarrow> real candle" where
  "flat_candle t p x =
     \<lparr>candle.time = t, period = p, count = 1, volume = 1, vwap_price = x, open_price = x,
      high_price = x, low_price = x, close_price = x\<rparr>"

text \<open>
  The conversions of doubles are instantiated for integral values: a non-negative integral
  double below \<open>2 ^ 53\<close> is written by \<^verbatim>\<open>std::to_chars\<close> as its decimal digits, and read
  back from them by \<^verbatim>\<open>std::from_chars\<close>.
\<close>

definition integral_charconv :: "real charconv" where
  "integral_charconv =
     \<lparr>to_chars_double = (\<lambda>x. to_digits (nat \<lfloor>x\<rfloor>)),
      from_chars_double =
        (\<lambda>s. case from_chars_unsigned 64 s of Inl e \<Rightarrow> None | Inr n \<Rightarrow> Some (real n))\<rparr>"

lemmas parse_eval =
  parse_candle_def candle_args_def parse_trade_def trade_args_def
  parse_args_more_def parse_args_last_def parse_arg_def scan_quoted_def span_def peek_def
  try_parse_uint64_def try_parse_uint32_def try_parse_int32_def try_parse_int64_def
  try_parse_double_def from_chars_unsigned_def from_chars_signed_def
  is_digit_def digit_value_def digits_value_def integral_charconv_def Let_def

section \<open>The claims\<close>

text \<open>
  C7. For a non-empty source of constant period \<open>p\<close> and a target period of \<open>m * p\<close>
  seconds with \<open>2 \<le> m\<close>, \<^verbatim>\<open>upscale\<close> succeeds with exactly \<open>length source div m\<close> candles;
  the \<open>i\<close>-th is the aggregate of the \<open>m\<close> consecutive source candles from index \<open>i * m\<close>,
  in order. A remainder of fewer than \<open>m\<close> candles at the end is dropped without an error.
\<close>

theorem upscale_candles_runs:
  assumes "source \<noteq> []"
    and "\<forall>c \<in> set source. candle.period c = p"
    and "unat (seconds_in up) = m * unat p"
    and "2 \<le> m"
  shows "\<exists>rs. upscale_candles F source result up ec = Inr (True, rs, ec) \<and>
           length rs = length source div m \<and>
           (\<forall>i < length rs.
              rs ! i = aggregate_run F (seconds_in up) (take m (drop (i * m) source)))"
proof -
  have hd: "candle.period (hd source) = p" using assms(1,2) by simp
  have const: "constant_period source" using assms(2) hd by (simp add: constant_period_def)
  have s: "0 < unat (seconds_in up)" using seconds_in_nonzero [of up] by (simp add: unat_gt_0)
  with assms(3) have p: "0 < unat p" by (cases "unat p = 0") simp_all
  then have p0: "p \<noteq> 0" by (simp add: unat_gt_0)
  have "unat (seconds_in up mod p) = 0" using assms(3) by (simp add: unat_mod)
  then have md: "seconds_in up mod p = 0" by (simp add: unat_eq_0)
  have c: "unat (seconds_in up div p) = m" using assms(3) p by (simp add: unat_div)
  have "unat (seconds_in up) \<noteq> unat p" using assms(3,4) p by auto
  then have ne: "seconds_in up \<noteq> p" by auto
  from upscale_candles_loop_result [of source up F result] p0 md hd c
  obtain r where r: "upscale_loop F source (seconds_in up) m 0 0
                (resize (length source div m) (zero_candle F) result) = Inr r"
     "length r = length source div m"
     "\<forall>i < length r. r ! i = aggregate_run F (seconds_in up) (take m (drop (i * m) source))"
    by auto
  have "upscale_candles F source result up ec = Inr (True, r, ec)"
    using assms(1) const p0 md ne r(1) by (simp add: upscale_candles_cases hd c)
  with r(2,3) show ?thesis by blast
qed

text \<open>
  Three candles of period 30 upscaled to a minute: one result candle from the first two,
  the third is dropped.
\<close>

theorem upscale_candles_runs_witness:
  "upscale_candles real_fp [flat_candle 60 30 1, flat_candle 90 30 3, flat_candle 120 30 2] []
     minute ok =
   Inr (True,
        [\<lparr>candle.time = 60, period = 60, count = 2, volume = 2, vwap_price = 2,
          open_price = 1, high_price = 3, low_price = 1, close_price = 3\<rparr>], ok)"
proof -
  let ?src = "[flat_candle 60 30 1, flat_candle 90 30 3, flat_candle 120 30 2]"
  have "?src \<noteq> []" "\<forall>c \<in> set ?src. candle.period c = 30"
    "unat (seconds_in minute) = 2 * unat (30 :: u32)" "(2::nat) \<le> 2"
    by (simp_all add: flat_candle_def)
  from upscale_candles_runs [OF this, where F = real_fp and result = "[]" and ec = ok]
  obtain rs where rs: "upscale_candles real_fp ?src [] minute ok = Inr (True, rs, ok)"
    "length rs = 1" "rs ! 0 = aggregate_run real_fp 60 (take 2 ?src)"
    by auto
  have "aggregate_run real_fp 60 (take 2 ?src) =
      \<lparr>candle.time = 60, period = 60, count = 2, volume = 2, vwap_price = 2,
          open_price = 1, high_price = 3, low_price = 1, close_price = 3\<rparr>"
    by (simp add: aggregate_run_def run_init_def run_step_def real_fp_def flat_candle_def)
  with rs(2,3) have "rs = [\<lparr>candle.time = 60, period = 60, count = 2, volume = 2, vwap_price = 2,
          open_price = 1, high_price = 3, low_price = 1, close_price = 3\<rparr>]"
    by (cases rs) simp_all
  with rs(1) show ?thesis by simp
qed




text \<open>
  C10. With a non-empty source whose first candle has a nonzero period, \<^verbatim>\<open>upscale\<close> of
  candles never takes a remainder or a quotient by zero, at none of its four integer
  divisions (\<^verbatim>\<open>period_in_seconds % period\<close>, \<^verbatim>\<open>period_in_seconds / period\<close>,
  \<^verbatim>\<open>source.size() / candles_to_fit\<close> and \<^verbatim>\<open>source[j].time / period_in_seconds\<close>), and it
  returns. It divides by zero exactly on a non-empty source whose candles all have
  period 0 (a source of mixed periods is refused before the remainder is reached).
\<close>

theorem upscale_candles_division_guarded:
  "(source \<noteq> [] \<and> candle.period (hd source) \<noteq> 0
      \<longrightarrow> upscale_candles F source result up ec \<noteq> Inl division_by_zero \<and>
          (\<exists>succeeded result' ec'.
             upscale_candles F source result up ec = Inr (succeeded, result', ec'))) \<and>
   (upscale_candles F source result up ec = Inl division_by_zero
      \<longleftrightarrow> source \<noteq> [] \<and> constant_period source \<and> candle.period (hd source) = 0)"
proof -
  have "\<exists>succeeded result' ec'.
      upscale_candles F source result up ec = Inr (succeeded, result', ec')"
    if "source = [] \<or> candle.period (hd source) \<noteq> 0"
    using upscale_candles_returns [OF that, of F result up ec] by auto
  moreover have "upscale_candles F source result up ec = Inl division_by_zero"
    if "source \<noteq> []" "constant_period source" "candle.period (hd source) = 0"
    using that by (simp add: upscale_candles_cases)
  moreover have "constant_period source"
    if "upscale_candles F source result up ec = Inl division_by_zero"
    using that by (auto simp: upscale_candles_cases split: if_splits)
  ultimately show ?thesis by (metis Inl_Inr_False)
qed

text \<open>
  Three candles of period 20 upscaled to a minute give one candle, with every divisor
  nonzero; one candle of period 0 stops at the remainder.
\<close>

theorem upscale_candles_division_guarded_witness:
  "(\<exists>succeeded result' ec'.
      upscale_candles real_fp [flat_candle 0 20 1, flat_candle 20 20 1, flat_candle 40 20 1] []
        minute ok = Inr (succeeded, result', ec')) \<and>
   upscale_candles real_fp [flat_candle 0 0 1] [] hour ok = Inl division_by_zero"
proof -
  have "[flat_candle 0 20 1, flat_candle 20 20 1, flat_candle 40 20 1] \<noteq> [] \<and>
      candle.period (hd [flat_candle 0 20 1, flat_candle 20 20 1, flat_candle 40 20 1]) \<noteq> 0"
    by (simp add: flat_candle_def)
  with upscale_candles_division_guarded [where F = real_fp and result = "[]" and up = minute
      and ec = ok
      and source = "[flat_candle 0 20 1, flat_candle 20 20 1, flat_candle 40 20 1]"]
  have a: "\<exists>succeeded result' ec'.
      upscale_candles real_fp [flat_candle 0 20 1, flat_candle 20 20 1, flat_candle 40 20 1] []
        minute ok = Inr (succeeded, result', ec')"
    by blast
  have "[flat_candle 0 0 1] \<noteq> [] \<and> constant_period [flat_candle 0 0 1] \<and>
      candle.period (hd [flat_candle 0 0 1]) = 0"
    by (simp add: constant_period_def flat_candle_def)
  with upscale_candles_division_guarded [where source = "[flat_candle 0 0 1]"
      and F = real_fp and result = "[]" and up = hour and ec = ok]
  have "upscale_candles real_fp [flat_candle 0 0 1] [] hour ok = Inl division_by_zero"
    by blast
  with a show ?thesis by simp
qed

text \<open>
  C4 (as amended). If the same time appears twice within the first input \<open>x\<close>, \<^verbatim>\<open>merge\<close>
  fails and leaves \<^verbatim>\<open>z\<close> as it was: with \<open>duplicated_candle\<close>, unless both inputs are
  non-empty and their first periods differ, which is reported first as
  \<open>merging_periods_mismatch\<close>.
\<close>

theorem merge_duplicate_in_x:
  assumes "\<not> distinct (map candle.time x)"
  shows "merge F x y z ec =
     (False, z,
      if x \<noteq> [] \<and> y \<noteq> [] \<and> candle.period (hd x) \<noteq> candle.period (hd y)
      then merging_periods_mismatch else duplicated_candle)"
proof -
  from merge_x_duplicate [of x "[]" ec] assms
  obtain indexed' where "merge_x x [] ec = (False, indexed', duplicated_candle)" by blast
  then show ?thesis by (simp add: merge_def failed_def)
qed

theorem merge_duplicate_in_x_witness:
  "merge real_fp [flat_candle 0 60 1, flat_candle 0 60 2] [flat_candle 60 60 1] [] ok =
     (False, [], duplicated_candle)"
proof -
  have "\<not> distinct (map candle.time [flat_candle 0 60 1, flat_candle 0 60 2])"
    by (simp add: flat_candle_def)
  from merge_duplicate_in_x [OF this, where F = real_fp and y = "[flat_candle 60 60 1]"
      and z = "[]" and ec = ok]
  show ?thesis by (simp add: flat_candle_def)
qed

text \<open>
  C4 as stated fails for the second input: a time that appears twice within \<open>y\<close> is not
  reported as a duplicated candle. Two identical candles in \<open>y\<close> are merged into one and
  the call succeeds; two different candles of one time in \<open>y\<close> are reported as
  \<open>mismatched_candles\<close>.
\<close>

theorem merge_duplicate_in_y_counterexample:
  "\<not> distinct (map candle.time [flat_candle 0 60 1, flat_candle 0 60 1]) \<and>
   merge real_fp [] [flat_candle 0 60 1, flat_candle 0 60 1] [] ok =
     (True, [flat_candle 0 60 1], ok) \<and>
   \<not> distinct (map candle.time [flat_candle 0 60 1, flat_candle 0 60 2]) \<and>
   merge real_fp [flat_candle 60 60 1] [flat_candle 0 60 1, flat_candle 0 60 2] [] ok =
     (False, [], mismatched_candles)"
  by (simp add: merge_def try_emplace_def candle_eq_def real_fp_def flat_candle_def
      copy_into_def resize_def failed_def)

text \<open>
  C8 fails on the code: \<^verbatim>\<open>upscale\<close> (trades) only appends to \<^verbatim>\<open>result\<close>
  (\<open>upscale_trades_append\<close>: the output is the previous contents followed by the new
  candles), where \<^verbatim>\<open>upscale\<close> (candles), \<^verbatim>\<open>merge\<close> and \<^verbatim>\<open>read\<close> replace the contents of
  their output. With one candle already in \<^verbatim>\<open>result\<close>, one trade gives two candles.
\<close>

theorem upscale_trades_keeps_previous_result:
  "upscale_trades real_fp [\<lparr>trade.time = 0, amount = 1, price = 10\<rparr>]
     [flat_candle 600 60 5] minute ok =
   (True, [flat_candle 600 60 5, flat_candle 0 60 10], ok)"
  by (simp add: upscale_trades_def open_bucket_def flush_def real_fp_def flat_candle_def)




text \<open>
  C5 (as amended). \<^verbatim>\<open>read\<close> (candles) and \<^verbatim>\<open>read\<close> (trades) return false exactly when,
  after some number of rows that parse, a row before the end of the buffer does not parse;
  the error is then \<open>invalid_candle_fields\<close> or \<open>invalid_trade_fields\<close>, and the output
  sequence, emptied at the start of the call, holds exactly the rows parsed before the
  failing one.
\<close>

theorem read_failure_output:
  "(read_candles C source candles ec = (False, out, e) \<longleftrightarrow>
      (\<exists>n cur. parse_rows (parse_candle C) n (second_row source) = Some (out, cur) \<and>
         cur \<noteq> [] \<and> parse_candle C cur = None) \<and>
      e = invalid_candle_fields) \<and>
   (read_trades C source trades ec' = (False, out', e') \<longleftrightarrow>
      (\<exists>n cur. parse_rows (parse_trade C) n (first_row source) = Some (out', cur) \<and>
         cur \<noteq> [] \<and> parse_trade C cur = None) \<and>
      e' = invalid_trade_fields)"
  unfolding read_candles_def read_trades_def read_candles_loop_failed_iff
    read_trades_loop_failed_iff
  by auto

theorem read_failure_output_witness:
  "read_trades integral_charconv (''1,2,3'' @ [LF] @ ''4,x,5'' @ [LF]) [] ok =
     (False, [\<lparr>trade.time = 1, amount = 3, price = 2\<rparr>], invalid_trade_fields)"
proof -
  let ?src = "''1,2,3'' @ [LF] @ ''4,x,5'' @ [LF]"
  have row1: "parse_trade integral_charconv (first_row ?src) =
      Some (\<lparr>trade.time = 1, amount = 3, price = 2\<rparr>, [LF] @ ''4,x,5'' @ [LF])"
    by (simp add: first_row_def parse_eval)
  have row2: "parse_trade integral_charconv (''4,x,5'' @ [LF]) = None"
    by (simp add: parse_eval)
  have "parse_rows (parse_trade integral_charconv) (Suc 0) (first_row ?src) =
      Some ([\<lparr>trade.time = 1, amount = 3, price = 2\<rparr>], ''4,x,5'' @ [LF])"
    using row1 by (simp add: next_row_def first_row_def)
  with row2 have "\<exists>n cur. parse_rows (parse_trade integral_charconv) n (first_row ?src) =
      Some ([\<lparr>trade.time = 1, amount = 3, price = 2\<rparr>], cur) \<and> cur \<noteq> [] \<and>
      parse_trade integral_charconv cur = None"
    by (intro exI [of _ "Suc 0"] exI [of _ "''4,x,5'' @ [LF]"]) simp
  with read_failure_output [where C = integral_charconv and source = ?src and trades = "[]"
      and ec' = ok and out' = "[\<lparr>trade.time = 1, amount = 3, price = 2\<rparr>]"
      and e' = invalid_trade_fields]
  show ?thesis by blast
qed

text \<open>
  C5 as stated fails: after a header, one good row and one bad row, the output holds the
  candle of the good row.
\<close>

theorem read_failure_partial_output_counterexample:
  "read_candles integral_charconv
     (''time,period'' @ [LF] @ ''0,60,1,1,1,1,1,1,1'' @ [LF] @ ''60,x'' @ [LF]) [] ok =
   (False, [flat_candle 0 60 1], invalid_candle_fields)"
proof -
  let ?rest = "''60,x'' @ [LF]"
  have start: "second_row (''time,period'' @ [LF] @ ''0,60,1,1,1,1,1,1,1'' @ [LF] @ ?rest) =
      ''0,60,1,1,1,1,1,1,1'' @ [LF] @ ?rest"
    by (simp add: second_row_def next_row_def)
  have row1: "parse_candle integral_charconv (''0,60,1,1,1,1,1,1,1'' @ [LF] @ ?rest) =
      Some (flat_candle 0 60 1, [LF] @ ?rest)"
    by (simp add: parse_eval flat_candle_def)
  have row2: "parse_candle integral_charconv ?rest = None"
    by (simp add: parse_eval)
  have "read_candles_loop integral_charconv (''0,60,1,1,1,1,1,1,1'' @ [LF] @ ?rest) [] ok =
      read_candles_loop integral_charconv (next_row ([LF] @ ?rest)) ([] @ [flat_candle 0 60 1]) ok"
    by (rule read_candles_loop_row [OF _ row1]) simp
  also have "\<dots> = read_candles_loop integral_charconv ?rest [flat_candle 0 60 1] ok"
    by (simp add: next_row_def)
  also have "\<dots> = (False, [flat_candle 0 60 1], invalid_candle_fields)"
    by (rule read_candles_loop_fail [OF _ row2]) simp
  finally show ?thesis unfolding read_candles_def start .
qed

text \<open>
  C1 fails on the code. \<^verbatim>\<open>format_arg(std::uint64_t)\<close> allocates 18 characters, so a time
  of \<open>10 ^ 18\<close> or more is not written (see C3): the row starts with 18 NUL characters,
  the reader stops at the first of them as at the end of the buffer, and the row does not
  parse (\<open>read_written_large_time\<close>). For the candle of one trade at time \<open>10 ^ 18\<close> with
  period 1, which satisfies the invariants of a candle, reading back what was written
  fails, whatever the conversions of doubles are.
\<close>

theorem round_trip_large_time:
  "read_candles C (write_candles C [flat_candle 1000000000000000000 1 1]) [] ok =
     (False, [], invalid_candle_fields)"
  by (rule read_written_large_time) (simp_all add: flat_candle_def)

text \<open>
  C3 fails on the code. \<^verbatim>\<open>uint64_digits\<close> is 18, and a 64-bit value has up to 20 digits:
  for a value of \<open>10 ^ 18\<close> or more \<^verbatim>\<open>std::to_chars\<close> fails, and the writer keeps the 18
  allocated characters (\<open>format_arg_uint64_large\<close>) instead of the 19 or 20 digits. Below
  \<open>10 ^ 18\<close> the digits written are the decimal representation without leading zeros
  (\<open>format_arg_uint64_small\<close>, \<open>to_digits_decimal\<close>).
\<close>

theorem format_arg_uint64_large_value:
  "buffer (format_arg_uint64 1000000000000000000 new_writer) = replicate 18 NUL \<and>
   to_digits 1000000000000000000 = ''1000000000000000000''"
proof -
  have "buffer (format_arg_uint64 1000000000000000000 new_writer) =
      buffer new_writer @ replicate 18 NUL"
    by (rule format_arg_uint64_large) (simp_all add: new_writer_def)
  moreover have "to_digits 1000000000000000000 = ''1000000000000000000''"
    by (simp add: to_digits_small to_digits_large digit_char_def)
  ultimately show ?thesis by (simp add: new_writer_def)
qed

text \<open>
  C6 (as amended). The text written by \<^verbatim>\<open>write\<close> (candles) starts with the header row in
  which every column name is wrapped in double quotes, \<open>header_line\<close>:
  \<^verbatim>\<open>"time","period","trades","volume","vwap_price","open_price","high_price","low_price","close_price"\<close>,
  followed by one newline and then the rows of the candles. (The bound on the number of
  candles keeps the sizes below \<open>2 ^ 63\<close>, where \<^verbatim>\<open>nearest_power_of_2\<close> does not wrap.)
\<close>

theorem write_candles_header:
  assumes "length candles < 2 ^ 54"
  shows "write_candles C candles = header_line @ LF # concat (map (candle_row C) candles) \<and>
         takeWhile (\<lambda>c. c \<noteq> LF) (write_candles C candles) = header_line"
  using write_candles_text [OF assms, of C] header_line_no_newline
  by (simp add: header_row_def)

theorem write_candles_header_witness:
  "write_candles integral_charconv [flat_candle 0 60 1] =
     header_line @ LF # ''0,60,1,1,1,1,1,1,1'' @ [LF]"
proof -
  have "length [flat_candle 0 60 1] < 2 ^ 54" by simp
  from write_candles_header [OF this, of integral_charconv]
  show ?thesis
    by (simp add: candle_row_def appended_def to_chars_unsigned_def to_chars_floating_def
        integral_charconv_def flat_candle_def to_digits_small to_digits_large digit_char_def)
qed

text \<open>
  C6 as stated fails: the header row is not the unquoted line; it starts with a double
  quote.
\<close>

theorem write_candles_quoted_header_counterexample:
  "write_candles integral_charconv [] = header_line @ [LF] \<and>
   hd header_line = DQUOTE \<and>
   header_line \<noteq>
     ''time,period,trades,volume,vwap_price,open_price,high_price,low_price,close_price''"
proof -
  have "length ([] :: real candle list) < 2 ^ 54" by simp
  from write_candles_text [OF this, of integral_charconv]
  show ?thesis by (simp add: header_row_def header_line_def quoted_def)
qed

end
